theory Spec2Isabelle
  imports Main "HOL-Library.Sublist"
begin

section \<open>Python values used by the server\<close>

text \<open>
  A Python \<open>str\<close> is a sequence of Unicode code points and a \<open>bytes\<close> object a sequence
  of integers below 256. Both are lists of naturals here; the two synonyms keep them apart
  in the signatures. \<open>py\<close> turns an ASCII literal into a \<open>str\<close>, \<open>bs\<close> into \<open>bytes\<close>.
\<close>

type_synonym pystr = "nat list"
type_synonym pybytes = "nat list"

definition py :: "string \<Rightarrow> pystr" where
  "py s = map of_char s"

definition bs :: "string \<Rightarrow> pybytes" where
  "bs s = map of_char s"

text \<open>The exception classes the three modules raise or catch.\<close>

datatype exn =
    FileNotFoundError
  | PermissionError
  | UnicodeDecodeError
  | UnicodeEncodeError
  | ValueError
  | OSError
  | SSLError
  | RuntimeError

subsection \<open>\<open>str.strip\<close>, \<open>str.rstrip\<close>, \<open>str.join\<close>, \<open>in\<close>\<close>

text \<open>The code points for which \<open>str.isspace\<close> holds; \<open>strip()\<close> removes exactly these.\<close>

definition is_space :: "nat \<Rightarrow> bool" where
  "is_space c \<longleftrightarrow>
     (9 \<le> c \<and> c \<le> 13) \<or> (28 \<le> c \<and> c \<le> 32) \<or> c = 133 \<or> c = 160 \<or> c = 5760 \<or>
     (8192 \<le> c \<and> c \<le> 8202) \<or> c = 8232 \<or> c = 8233 \<or> c = 8239 \<or> c = 8287 \<or> c = 12288"

definition lstrip_with :: "(nat \<Rightarrow> bool) \<Rightarrow> pystr \<Rightarrow> pystr" where
  "lstrip_with p s = dropWhile p s"

definition rstrip_with :: "(nat \<Rightarrow> bool) \<Rightarrow> pystr \<Rightarrow> pystr" where
  "rstrip_with p s = rev (dropWhile p (rev s))"

definition strip :: "pystr \<Rightarrow> pystr" where
  "strip s = lstrip_with is_space (rstrip_with is_space s)"

text \<open>\<open>line.rstrip("\n")\<close> and \<open>text.rstrip("\x00")\<close>.\<close>

definition rstrip_nl :: "pystr \<Rightarrow> pystr" where
  "rstrip_nl s = rstrip_with (\<lambda>c. c = 10) s"

definition rstrip_nul :: "pystr \<Rightarrow> pystr" where
  "rstrip_nul s = rstrip_with (\<lambda>c. c = 0) s"

text \<open>\<open>sep.join(parts)\<close>.\<close>

fun join :: "pystr \<Rightarrow> pystr list \<Rightarrow> pystr" where
  "join sep [] = []"
| "join sep [x] = x"
| "join sep (x # y # ys) = x @ sep @ join sep (y # ys)"

text \<open>\<open>a in b\<close> on two strings (or \<open>b.find(a) != -1\<close> on bytes) is \<^const>\<open>sublist\<close>.\<close>

subsection \<open>UTF-8\<close>

text \<open>
  \<open>str.encode("utf-8")\<close>: lone surrogates raise \<open>UnicodeEncodeError\<close>. A value from
  \<open>0x110000\<close> on is no code point and cannot occur in a \<open>str\<close>; the model rejects it too.
\<close>

definition utf8_encode_cp :: "nat \<Rightarrow> pybytes option" where
  "utf8_encode_cp c =
     (if c < 0x80 then Some [c]
      else if c < 0x800 then Some [0xC0 + c div 64, 0x80 + c mod 64]
      else if 0xD800 \<le> c \<and> c \<le> 0xDFFF then None
      else if c < 0x10000 then
        Some [0xE0 + c div 4096, 0x80 + (c div 64) mod 64, 0x80 + c mod 64]
      else if c < 0x110000 then
        Some [0xF0 + c div 262144, 0x80 + (c div 4096) mod 64,
              0x80 + (c div 64) mod 64, 0x80 + c mod 64]
      else None)"

fun utf8_encode :: "pystr \<Rightarrow> exn + pybytes" where
  "utf8_encode [] = Inr []"
| "utf8_encode (c # cs) =
     (case utf8_encode_cp c of
        None \<Rightarrow> Inl UnicodeEncodeError
      | Some b \<Rightarrow> (case utf8_encode cs of Inl e \<Rightarrow> Inl e | Inr r \<Rightarrow> Inr (b @ r)))"

text \<open>
  \<open>bytes.decode("utf-8", errors=...)\<close>. One step of the decoder looks at the remaining
  input: it either yields a code point and the number of bytes it took, or reports an
  invalid sequence and the number of bytes the error covers (one for an invalid start
  byte, the valid prefix for an invalid continuation byte, everything left for input
  that ends inside a sequence).
\<close>

datatype dec_step = Got nat nat | Bad nat

definition is_cont :: "nat \<Rightarrow> bool" where
  "is_cont b \<longleftrightarrow> 0x80 \<le> b \<and> b < 0xC0"

definition utf8_step :: "nat \<Rightarrow> pybytes \<Rightarrow> dec_step" where
  "utf8_step ch r =
     (if ch < 0x80 then Got ch 1
      else if ch < 0xE0 then
        (if ch < 0xC2 then Bad 1
         else case r of
             [] \<Rightarrow> Bad 1
           | ch2 # _ \<Rightarrow>
               if \<not> is_cont ch2 then Bad 1
               else Got ((ch - 0xC0) * 64 + (ch2 - 0x80)) 2)
      else if ch < 0xF0 then
        (case r of
           [] \<Rightarrow> Bad 1
         | [ch2] \<Rightarrow>
             if \<not> is_cont ch2 \<or> (if ch2 < 0xA0 then ch = 0xE0 else ch = 0xED) then Bad 1
             else Bad 2
         | ch2 # ch3 # _ \<Rightarrow>
             if \<not> is_cont ch2 then Bad 1
             else if ch = 0xE0 \<and> ch2 < 0xA0 then Bad 1
             else if ch = 0xED \<and> 0xA0 \<le> ch2 then Bad 1
             else if \<not> is_cont ch3 then Bad 2
             else Got ((ch - 0xE0) * 4096 + (ch2 - 0x80) * 64 + (ch3 - 0x80)) 3)
      else if ch < 0xF5 then
        (case r of
           [] \<Rightarrow> Bad 1
         | [ch2] \<Rightarrow>
             if \<not> is_cont ch2 \<or> (if ch2 < 0x90 then ch = 0xF0 else ch = 0xF4) then Bad 1
             else Bad 2
         | [ch2, ch3] \<Rightarrow>
             if \<not> is_cont ch2 \<or> (if ch2 < 0x90 then ch = 0xF0 else ch = 0xF4) then Bad 1
             else if \<not> is_cont ch3 then Bad 2
             else Bad 3
         | ch2 # ch3 # ch4 # _ \<Rightarrow>
             if \<not> is_cont ch2 then Bad 1
             else if ch = 0xF0 \<and> ch2 < 0x90 then Bad 1
             else if ch = 0xF4 \<and> 0x90 \<le> ch2 then Bad 1
             else if \<not> is_cont ch3 then Bad 2
             else if \<not> is_cont ch4 then Bad 3
             else Got ((ch - 0xF0) * 262144 + (ch2 - 0x80) * 4096 +
                       (ch3 - 0x80) * 64 + (ch4 - 0x80)) 4)
      else Bad 1)"

text \<open>
  The error handlers: \<open>strict\<close> raises \<open>UnicodeDecodeError\<close> (\<open>None\<close> here),
  \<open>ignore\<close> drops the bytes of the error, \<open>replace\<close> puts U+FFFD in their place.
\<close>

datatype errors = Strict | Ignore | Replace

lemma utf8_step_Got_pos: "utf8_step b r = Got c k \<Longrightarrow> 0 < k"
  by (auto simp: utf8_step_def split: if_splits list.splits)

lemma utf8_step_Bad_pos: "utf8_step b r = Bad k \<Longrightarrow> 0 < k"
  by (auto simp: utf8_step_def split: if_splits list.splits)

function utf8_decode :: "errors \<Rightarrow> pybytes \<Rightarrow> pystr option" where
  "utf8_decode h [] = Some []"
| "utf8_decode h (b # r) =
     (case utf8_step b r of
        Got c k \<Rightarrow> map_option (Cons c) (utf8_decode h (drop k (b # r)))
      | Bad k \<Rightarrow>
          (case h of
             Strict \<Rightarrow> None
           | Ignore \<Rightarrow> utf8_decode h (drop k (b # r))
           | Replace \<Rightarrow> map_option (Cons 0xFFFD) (utf8_decode h (drop k (b # r)))))"
  by pat_completeness auto
termination
  by (relation "measure (\<lambda>(h, b). length b)")
     (auto dest: utf8_step_Got_pos utf8_step_Bad_pos)

subsection \<open>Text files\<close>

text \<open>
  A file opened in text mode translates \<open>\r\n\<close> and a lone \<open>\r\<close> to \<open>\n\<close>; iterating over
  it yields the lines, each with its terminating \<open>\n\<close> (the last line may lack one).
\<close>

fun universal_newlines :: "pystr \<Rightarrow> pystr" where
  "universal_newlines [] = []"
| "universal_newlines [c] = (if c = 13 then [10] else [c])"
| "universal_newlines (c # d # cs) =
     (if c = 13 \<and> d = 10 then 10 # universal_newlines cs
      else if c = 13 then 10 # universal_newlines (d # cs)
      else c # universal_newlines (d # cs))"

fun iter_lines :: "pystr \<Rightarrow> pystr list" where
  "iter_lines [] = []"
| "iter_lines (c # cs) =
     (if c = 10 then [10] # iter_lines cs
      else (case iter_lines cs of [] \<Rightarrow> [[c]] | l # ls \<Rightarrow> (c # l) # ls))"

text \<open>
  What a path names: nothing, something that is not a regular file (a directory, say),
  or a regular file with its bytes. \<open>readable\<close> is false when opening it is denied
  (\<open>PermissionError\<close>), \<open>open_fault\<close> is true when opening it fails with another
  \<open>OSError\<close>, \<open>map_fault\<close> when mapping it into memory does.
\<close>

datatype fs_entry =
    Missing
  | NotRegular
  | Regular (readable: bool) (open_fault: bool) (map_fault: bool) (stored: pybytes)

type_synonym filesystem = "pystr \<Rightarrow> fs_entry"

text \<open>\<open>open(path, "r", encoding="utf-8")\<close> followed by iteration over the lines.\<close>

definition read_text_lines :: "fs_entry \<Rightarrow> exn + pystr list" where
  "read_text_lines e =
     (case e of
        Missing \<Rightarrow> Inl FileNotFoundError
      | NotRegular \<Rightarrow> Inl OSError
      | Regular r f m b \<Rightarrow>
          if \<not> r then Inl PermissionError
          else if f then Inl OSError
          else (case utf8_decode Strict b of
                  None \<Rightarrow> Inl UnicodeDecodeError
                | Some t \<Rightarrow> Inr (iter_lines (universal_newlines t))))"

section \<open>The configuration loader (\<open>server/config.py\<close>)\<close>

text \<open>
  \<open>str.lower\<close> and \<open>int\<close> depend on the Unicode tables of the interpreter; the loader
  takes them as parameters. \<open>ascii_lib\<close> is what they do on ASCII strings.
\<close>

record pylib =
  str_lower :: "pystr \<Rightarrow> pystr"
  int_of_str :: "pystr \<Rightarrow> int option"

definition ascii_lower :: "pystr \<Rightarrow> pystr" where
  "ascii_lower s = map (\<lambda>c. if 65 \<le> c \<and> c \<le> 90 then c + 32 else c) s"

definition is_digit :: "nat \<Rightarrow> bool" where
  "is_digit c \<longleftrightarrow> 48 \<le> c \<and> c \<le> 57"

fun digits_value :: "int \<Rightarrow> pystr \<Rightarrow> int" where
  "digits_value acc [] = acc"
| "digits_value acc (c # cs) = digits_value (if is_digit c then 10 * acc + int (c - 48) else acc) cs"

definition unsigned_ascii_int :: "pystr \<Rightarrow> int option" where
  "unsigned_ascii_int s =
     (if s \<noteq> [] \<and> list_all (\<lambda>c. is_digit c \<or> c = 95) s \<and> is_digit (hd s) \<and> is_digit (last s)
         \<and> \<not> sublist [95, 95] s
      then Some (digits_value 0 s) else None)"

definition ascii_int :: "pystr \<Rightarrow> int option" where
  "ascii_int v =
     (case strip v of
        [] \<Rightarrow> None
      | c # cs \<Rightarrow>
          if c = 45 then map_option uminus (unsigned_ascii_int cs)
          else if c = 43 then unsigned_ascii_int cs
          else unsigned_ascii_int (c # cs))"

definition ascii_lib :: pylib where
  "ascii_lib = \<lparr>str_lower = ascii_lower, int_of_str = ascii_int\<rparr>"

text \<open>The attributes of a \<open>Config\<close> object, and their values before the file is read.\<close>

record config =
  host :: pystr
  port :: int
  linuxpath :: pystr
  reread_on_query :: bool
  ssl_enabled :: bool
  certfile :: "pystr option"
  keyfile :: "pystr option"
  cafile :: "pystr option"
  psk :: "pystr option"

definition default_config :: config where
  "default_config =
     \<lparr>host = py ''0.0.0.0'', port = 44445, linuxpath = py ''.'', reread_on_query = False,
      ssl_enabled = False, certfile = None, keyfile = None, cafile = None, psk = None\<rparr>"

text \<open>
  The configuration file as the loader sees it: it does not exist, opening it raises,
  or iterating over it yields lines and then possibly raises (a read or decoding error).
\<close>

datatype config_source = NoFile | OpenFails exn | Opened "pystr list" "exn option"

text \<open>\<open>except ValueError\<close> also catches the two Unicode errors, its subclasses.\<close>

definition is_ValueError :: "exn \<Rightarrow> bool" where
  "is_ValueError e \<longleftrightarrow> e = ValueError \<or> e = UnicodeDecodeError \<or> e = UnicodeEncodeError"

text \<open>\<open>line.split("=", 1)\<close> on a line that contains \<open>=\<close>.\<close>

definition split_eq :: "pystr \<Rightarrow> pystr \<times> pystr" where
  "split_eq line = (takeWhile (\<lambda>c. c \<noteq> 61) line, tl (dropWhile (\<lambda>c. c \<noteq> 61) line))"

definition parse_bool :: "pylib \<Rightarrow> pystr \<Rightarrow> bool" where
  "parse_bool lib v \<longleftrightarrow>
     str_lower lib v = py ''true'' \<or> str_lower lib v = py ''1'' \<or> str_lower lib v = py ''yes''"

text \<open>
  The body of the loop over the lines. A port that is not an integer or not in range
  raises \<open>ValueError\<close>, which the two handlers around it re-raise as \<open>ValueError\<close>
  (with another message; messages are not modelled).
\<close>

definition process_line :: "pylib \<Rightarrow> config \<Rightarrow> pystr \<Rightarrow> exn + config" where
  "process_line lib c raw =
     (let line = strip raw in
      if line = [] \<or> prefix (py ''#'') line then Inr c
      else if 61 \<notin> set line then Inr c
      else
        (let key = str_lower lib (strip (fst (split_eq line)));
             v = strip (snd (split_eq line)) in
         if key = py ''linuxpath'' \<or> key = py ''file_path'' then Inr (c\<lparr>linuxpath := v\<rparr>)
         else if key = py ''host'' then Inr (c\<lparr>host := v\<rparr>)
         else if key = py ''port'' then
           (case int_of_str lib v of
              None \<Rightarrow> Inl ValueError
            | Some p \<Rightarrow> if \<not> (1 \<le> p \<and> p \<le> 65535) then Inl ValueError else Inr (c\<lparr>port := p\<rparr>))
         else if key = py ''reread_on_query'' then Inr (c\<lparr>reread_on_query := parse_bool lib v\<rparr>)
         else if key = py ''ssl_enabled'' then Inr (c\<lparr>ssl_enabled := parse_bool lib v\<rparr>)
         else if key = py ''certfile'' \<or> key = py ''ssl_certfile'' then Inr (c\<lparr>certfile := Some v\<rparr>)
         else if key = py ''keyfile'' \<or> key = py ''ssl_keyfile'' then Inr (c\<lparr>keyfile := Some v\<rparr>)
         else if key = py ''cafile'' \<or> key = py ''ssl_cafile'' then Inr (c\<lparr>cafile := Some v\<rparr>)
         else if key = py ''psk'' then Inr (c\<lparr>psk := Some v\<rparr>)
         else Inr c))"

fun process_lines :: "pylib \<Rightarrow> config \<Rightarrow> pystr list \<Rightarrow> exn + config" where
  "process_lines lib c [] = Inr c"
| "process_lines lib c (l # ls) =
     (case process_line lib c l of Inl e \<Rightarrow> Inl e | Inr c' \<Rightarrow> process_lines lib c' ls)"

text \<open>
  The handlers at the end of \<open>_load_config\<close>: \<open>ValueError\<close>, \<open>FileNotFoundError\<close>,
  \<open>PermissionError\<close> and \<open>UnicodeDecodeError\<close> pass, anything else becomes \<open>RuntimeError\<close>.
\<close>

definition config_reraise :: "exn \<Rightarrow> exn" where
  "config_reraise e =
     (if is_ValueError e \<or> e = FileNotFoundError \<or> e = PermissionError then e else RuntimeError)"

text \<open>\<open>Config(config_file)\<close>: \<open>__init__\<close> sets the defaults and calls \<open>_load_config\<close>.\<close>

definition load_config :: "pylib \<Rightarrow> config_source \<Rightarrow> exn + config" where
  "load_config lib src =
     (case src of
        NoFile \<Rightarrow> Inl FileNotFoundError
      | OpenFails e \<Rightarrow> Inl (config_reraise e)
      | Opened ls err \<Rightarrow>
          (case process_lines lib default_config ls of
             Inl e \<Rightarrow> Inl (config_reraise e)
           | Inr c \<Rightarrow>
               (case err of
                  Some e \<Rightarrow> Inl (config_reraise e)
                | None \<Rightarrow>
                    if linuxpath c = [] \<or> linuxpath c = py ''.'' then Inl ValueError
                    else Inr c)))"

section \<open>The TLS context builder (\<open>server/ssl_utils.py\<close>)\<close>

text \<open>The TLS context, as far as the server and \<open>ssl_utils\<close> set or read it.\<close>

datatype verify_mode = CERT_NONE | CERT_REQUIRED

record ssl_context =
  verify :: verify_mode
  check_hostname :: bool
  cert_chain :: "(pystr \<times> pystr) option"
  ca_locations :: "pystr option"
  tls12_minimum :: bool
  strong_ciphers :: bool

text \<open>
  What the \<open>ssl\<close> module does with the files it is given is outside the repository: whether
  creating the default context, loading the certificate chain or loading the CA file
  raises (and what), and whether the cipher string is accepted.
\<close>

record tls_lib =
  context_error :: "exn option"
  cert_chain_error :: "pystr \<Rightarrow> pystr \<Rightarrow> exn option"
  verify_locations_error :: "pystr \<Rightarrow> exn option"
  ciphers_error :: bool

text \<open>Truth value of an \<open>Optional[str]\<close>: \<open>None\<close> and the empty string are false.\<close>

definition truthy :: "pystr option \<Rightarrow> bool" where
  "truthy x = (case x of None \<Rightarrow> False | Some v \<Rightarrow> v \<noteq> [])"

text \<open>\<open>ssl.create_default_context(purpose)\<close>: only a client-side context verifies its peer.\<close>

definition create_default_context :: "bool \<Rightarrow> ssl_context" where
  "create_default_context server_side =
     \<lparr>verify = (if server_side then CERT_NONE else CERT_REQUIRED),
      check_hostname = \<not> server_side, cert_chain = None, ca_locations = None,
      tls12_minimum = False, strong_ciphers = False\<rparr>"

text \<open>The three stages of the \<open>try\<close> body, each from a context to a context or an exception.\<close>

text \<open>The parameters \<open>certfile\<close>, \<open>keyfile\<close>, \<open>cafile\<close> and \<open>psk\<close> are \<open>cert\<close>, \<open>key\<close>, \<open>ca\<close> and \<open>secret\<close>.\<close>

definition load_certificates ::
  "filesystem \<Rightarrow> tls_lib \<Rightarrow> pystr option \<Rightarrow> pystr option \<Rightarrow> ssl_context \<Rightarrow> exn + ssl_context" where
  "load_certificates fs ssl cert key ctx =
     (if truthy cert \<and> truthy key then
        (if fs (the cert) = Missing then Inl FileNotFoundError
         else if fs (the key) = Missing then Inl FileNotFoundError
         else (case cert_chain_error ssl (the cert) (the key) of
                 Some e \<Rightarrow> Inl e
               | None \<Rightarrow> Inr (ctx\<lparr>cert_chain := Some (the cert, the key)\<rparr>)))
      else Inr ctx)"

definition load_ca ::
  "filesystem \<Rightarrow> tls_lib \<Rightarrow> pystr option \<Rightarrow> bool \<Rightarrow> bool \<Rightarrow> ssl_context \<Rightarrow> exn + ssl_context" where
  "load_ca fs ssl ca server_side verify_client ctx =
     (if truthy ca then
        (if fs (the ca) = Missing then Inl FileNotFoundError
         else (case verify_locations_error ssl (the ca) of
                 Some e \<Rightarrow> Inl e
               | None \<Rightarrow>
                   (let ctx' = ctx\<lparr>ca_locations := ca\<rparr> in
                    if verify_client \<or> \<not> server_side then Inr (ctx'\<lparr>verify := CERT_REQUIRED\<rparr>)
                    else Inr ctx')))
      else Inr ctx)"

definition harden :: "tls_lib \<Rightarrow> ssl_context \<Rightarrow> ssl_context" where
  "harden ssl ctx = ctx\<lparr>tls12_minimum := True, strong_ciphers := \<not> ciphers_error ssl\<rparr>"

text \<open>
  The handlers at the end of \<open>create_ssl_context\<close>: \<open>ValueError\<close>, \<open>FileNotFoundError\<close>
  and \<open>ssl.SSLError\<close> pass, anything else becomes \<open>RuntimeError\<close>.
\<close>

definition ssl_reraise :: "exn \<Rightarrow> exn" where
  "ssl_reraise e =
     (if is_ValueError e \<or> e = FileNotFoundError \<or> e = SSLError then e else RuntimeError)"

definition create_ssl_context ::
  "filesystem \<Rightarrow> tls_lib \<Rightarrow> pystr option \<Rightarrow> pystr option \<Rightarrow> pystr option \<Rightarrow> pystr option \<Rightarrow>
     bool \<Rightarrow> bool \<Rightarrow> exn + ssl_context" where
  "create_ssl_context fs ssl cert key ca secret server_side verify_client =
     (if \<not> truthy cert \<and> \<not> truthy key \<and> \<not> truthy secret then Inl ValueError
      else if (truthy cert \<and> \<not> truthy key) \<or> (truthy key \<and> \<not> truthy cert)
      then Inl ValueError
      else
        (case context_error ssl of
           Some e \<Rightarrow> Inl (ssl_reraise e)
         | None \<Rightarrow>
             (case load_certificates fs ssl cert key (create_default_context server_side) of
                Inl e \<Rightarrow> Inl (ssl_reraise e)
              | Inr ctx1 \<Rightarrow>
                  (case load_ca fs ssl ca server_side verify_client ctx1 of
                     Inl e \<Rightarrow> Inl (ssl_reraise e)
                   | Inr ctx2 \<Rightarrow> Inr (harden ssl ctx2)))))"

section \<open>The server (\<open>server/server.py\<close>)\<close>

text \<open>
  A server object copies every attribute of its \<open>Config\<close> and adds its own, so the record
  extends \<open>config\<close>. The listening socket and the stop event are not part of the model.
\<close>

record server = config +
  file_path :: pystr
  file_lines :: "pystr set"
  file_content :: pystr
  ssl_ctx :: "ssl_context option"
  running :: bool

definition STRING_EXISTS :: pystr where
  "STRING_EXISTS = py ''STRING EXISTS''"

definition STRING_NOT_FOUND :: pystr where
  "STRING_NOT_FOUND = py ''STRING NOT FOUND''"

text \<open>\<open>_read_file\<close>: every exception of the read is caught and gives the empty list.\<close>

definition read_file :: "server \<Rightarrow> filesystem \<Rightarrow> pystr list" where
  "read_file s fs =
     (case read_text_lines (fs (file_path s)) of
        Inl e \<Rightarrow> []
      | Inr ls \<Rightarrow> map rstrip_nl (filter (\<lambda>line. strip line \<noteq> []) ls))"

text \<open>\<open>_load_file_once\<close>: \<open>is_file()\<close> holds for a regular file only.\<close>

definition load_file_once :: "server \<Rightarrow> filesystem \<Rightarrow> server" where
  "load_file_once s fs =
     (case fs (file_path s) of
        Regular r f m b \<Rightarrow>
          (let lines = read_file s fs in
           if lines \<noteq> [] then s\<lparr>file_lines := set lines, file_content := join [10] lines\<rparr>
           else s\<lparr>file_lines := {}, file_content := []\<rparr>)
      | _ \<Rightarrow> s\<lparr>file_lines := {}, file_content := []\<rparr>)"

text \<open>
  \<open>_mmap_search\<close>. \<open>mmap_scan\<close> is the body of its \<open>try\<close>: opening can raise, mapping an
  empty file raises \<open>ValueError\<close>, mapping can fail in the operating system, encoding a
  query with a lone surrogate raises \<open>UnicodeEncodeError\<close>. \<open>mmap_search\<close> adds the
  \<open>except Exception\<close>.
\<close>

definition mmap_scan :: "server \<Rightarrow> filesystem \<Rightarrow> pystr \<Rightarrow> exn + pystr" where
  "mmap_scan s fs search_str =
     (case fs (file_path s) of
        Missing \<Rightarrow> Inr STRING_NOT_FOUND
      | NotRegular \<Rightarrow> Inr STRING_NOT_FOUND
      | Regular r f m b \<Rightarrow>
          if \<not> r then Inl PermissionError
          else if f then Inl OSError
          else if b = [] then Inl ValueError
          else if m then Inl OSError
          else (case utf8_encode search_str of
                  Inl e \<Rightarrow> Inl e
                | Inr search_bytes \<Rightarrow>
                    if sublist search_bytes b then Inr STRING_EXISTS
                    else Inr STRING_NOT_FOUND))"

definition mmap_search :: "server \<Rightarrow> filesystem \<Rightarrow> pystr \<Rightarrow> pystr" where
  "mmap_search s fs search_str =
     (case mmap_scan s fs search_str of Inl e \<Rightarrow> STRING_NOT_FOUND | Inr r \<Rightarrow> r)"

text \<open>
  \<open>search_string\<close>. Nothing in the body of its \<open>try\<close> can raise (\<open>_mmap_search\<close> catches
  its own exceptions), so the \<open>except\<close> branch has no counterpart here.
\<close>

definition search_string :: "server \<Rightarrow> filesystem \<Rightarrow> pystr \<Rightarrow> pystr" where
  "search_string s fs query =
     (if query = [] \<or> strip query = [] then STRING_NOT_FOUND
      else
        (let search_str = strip query in
         if reread_on_query s then mmap_search s fs search_str
         else if file_content s \<noteq> [] \<and> sublist search_str (file_content s) then STRING_EXISTS
         else if file_lines s \<noteq> {} \<and> search_str \<in> file_lines s then STRING_EXISTS
         else mmap_search s fs search_str))"

text \<open>
  \<open>__init__\<close>. A failure of \<open>Config\<close> leaves through the outer handler as \<open>RuntimeError\<close>;
  so does an exception of \<open>create_ssl_context\<close> other than \<open>ValueError\<close> and
  \<open>FileNotFoundError\<close>, which the inner handler turns into a start without TLS.
\<close>

definition new_server :: "config \<Rightarrow> server" where
  "new_server c =
     \<lparr>host = host c, port = port c, linuxpath = linuxpath c,
      reread_on_query = reread_on_query c, ssl_enabled = ssl_enabled c,
      certfile = certfile c, keyfile = keyfile c, cafile = cafile c, psk = psk c,
      file_path = linuxpath c, file_lines = {}, file_content = [], ssl_ctx = None,
      running = False\<rparr>"

definition setup_ssl :: "filesystem \<Rightarrow> tls_lib \<Rightarrow> server \<Rightarrow> exn + server" where
  "setup_ssl fs ssl s =
     (if ssl_enabled s then
        (case create_ssl_context fs ssl (certfile s) (keyfile s) (cafile s) (psk s) True False of
           Inr ctx \<Rightarrow> Inr (s\<lparr>ssl_ctx := Some ctx\<rparr>)
         | Inl e \<Rightarrow>
             if is_ValueError e \<or> e = FileNotFoundError
             then Inr (s\<lparr>ssl_enabled := False, ssl_ctx := None\<rparr>)
             else Inl e)
      else Inr (s\<lparr>ssl_ctx := None\<rparr>))"

definition server_init :: "pylib \<Rightarrow> tls_lib \<Rightarrow> filesystem \<Rightarrow> config_source \<Rightarrow> exn + server" where
  "server_init lib ssl fs src =
     (case load_config lib src of
        Inl e \<Rightarrow> Inl RuntimeError
      | Inr c \<Rightarrow>
          (let s0 = new_server c;
               s1 = (if \<not> reread_on_query s0 then load_file_once s0 fs else s0) in
           case setup_ssl fs ssl s1 of
             Inl e \<Rightarrow> Inl RuntimeError
           | Inr s2 \<Rightarrow> Inr s2))"

subsection \<open>The connection handler\<close>

text \<open>\<open>data.decode("utf-8", errors="ignore").rstrip("\x00").strip()\<close>.\<close>

definition decode_with :: "errors \<Rightarrow> pybytes \<Rightarrow> pystr" where
  "decode_with h data = (case utf8_decode h data of Some t \<Rightarrow> t | None \<Rightarrow> [])"

definition derive_query :: "pybytes \<Rightarrow> pystr" where
  "derive_query data = strip (rstrip_nul (decode_with Ignore data))"

text \<open>
  One round of the loop of \<open>handle_client\<close> on a non-empty chunk: what it hands to
  \<open>sendall\<close> (\<open>None\<close> when encoding the answer raises, which ends the loop) and the
  query it passed to \<open>search_string\<close>, if it called it.
\<close>

record round =
  to_send :: "pybytes option"
  searched :: "pystr option"

definition handle_data :: "server \<Rightarrow> filesystem \<Rightarrow> pybytes \<Rightarrow> round" where
  "handle_data s fs chunk =
     (let query = derive_query chunk in
      if query = [] then \<lparr>to_send = Some (bs ''STRING NOT FOUND'' @ [10]), searched = None\<rparr>
      else
        (let result = search_string s fs query in
         \<lparr>to_send = (case utf8_encode (result @ [10]) of Inl e \<Rightarrow> None | Inr b \<Rightarrow> Some b),
          searched = Some query\<rparr>))"

text \<open>
  The loop itself, over what happens on the socket: the stop event is found set, or
  \<open>recv\<close> returns a chunk (with whether the following \<open>sendall\<close> succeeds), times out, or
  raises. The result is the sequence of messages written to the peer.
\<close>

datatype socket_event = StopSet | Recv pybytes bool | RecvTimeout | RecvReset | RecvFault

fun handle_client :: "server \<Rightarrow> filesystem \<Rightarrow> socket_event list \<Rightarrow> pybytes list" where
  "handle_client s fs [] = []"
| "handle_client s fs (StopSet # evs) = []"
| "handle_client s fs (RecvTimeout # evs) = handle_client s fs evs"
| "handle_client s fs (RecvReset # evs) = []"
| "handle_client s fs (RecvFault # evs) = []"
| "handle_client s fs (Recv data send_ok # evs) =
     (if data = [] then []
      else (case to_send (handle_data s fs data) of
              None \<Rightarrow> []
            | Some msg \<Rightarrow> if send_ok then msg # handle_client s fs evs else []))"

text \<open>
  The calls a running server receives, as steps on the server object: a search, a chunk
  on some connection, \<open>shutdown()\<close>. None of them assigns \<open>file_lines\<close> or \<open>file_content\<close>.
\<close>

datatype operation = Search pystr | Chunk pybytes | Shutdown

datatype outcome = Result pystr | Reply round | Stopped

fun perform :: "filesystem \<Rightarrow> server \<Rightarrow> operation \<Rightarrow> server \<times> outcome" where
  "perform fs s (Search q) = (s, Result (search_string s fs q))"
| "perform fs s (Chunk chunk) = (s, Reply (handle_data s fs chunk))"
| "perform fs s Shutdown = (s\<lparr>running := False\<rparr>, Stopped)"

text \<open>A run of the server: each call finds the file system in some state of its own.\<close>

fun run :: "server \<Rightarrow> (filesystem \<times> operation) list \<Rightarrow> server \<times> outcome list" where
  "run s [] = (s, [])"
| "run s ((fs, op) # rest) =
     (case perform fs s op of
        (s', out) \<Rightarrow> (case run s' rest of (s'', outs) \<Rightarrow> (s'', out # outs)))"

section \<open>Notions of the specification\<close>

text \<open>The cache invariant: the line set and the joined text are both empty or both not.\<close>

definition cache_inv :: "server \<Rightarrow> bool" where
  "cache_inv s \<longleftrightarrow> (file_lines s = {}) = (file_content s = [])"

text \<open>
  The lines of the corpus file, blank ones included, without their line terminator; a
  file that cannot be read has none.
\<close>

definition corpus_lines :: "fs_entry \<Rightarrow> pystr list" where
  "corpus_lines e = (case read_text_lines e of Inl x \<Rightarrow> [] | Inr ls \<Rightarrow> map rstrip_nl ls)"

text \<open>The text of the non-blank lines of the corpus, joined by newlines.\<close>

definition cached_text :: "fs_entry \<Rightarrow> pystr" where
  "cached_text e = join [10] (filter (\<lambda>l. strip l \<noteq> []) (corpus_lines e))"

text \<open>The bytes of the corpus file, and whether a string occurs in them once encoded.\<close>

definition file_bytes :: "fs_entry \<Rightarrow> pybytes" where
  "file_bytes e = (case e of Regular r f m b \<Rightarrow> b | _ \<Rightarrow> [])"

definition occurs_in_bytes :: "pystr \<Rightarrow> pybytes \<Rightarrow> bool" where
  "occurs_in_bytes q b = (case utf8_encode q of Inl e \<Rightarrow> False | Inr qb \<Rightarrow> sublist qb b)"

text \<open>
  The search as the specification words it: in static mode the trimmed query is looked
  up in the joined text, then in the line set, then by the memory-mapped scan; in dynamic
  mode it goes to the scan at once.
\<close>

definition spec_search :: "server \<Rightarrow> filesystem \<Rightarrow> pystr \<Rightarrow> pystr" where
  "spec_search s fs query =
     (if reread_on_query s then mmap_search s fs (strip query)
      else if sublist (strip query) (file_content s) then STRING_EXISTS
      else if strip query \<in> file_lines s then STRING_EXISTS
      else mmap_search s fs (strip query))"

text \<open>
  The corpus file cannot be opened (it is missing, not a regular file, not readable, or
  the operating system fails on opening it), or it cannot be opened or mapped.
\<close>

definition open_failure :: "fs_entry \<Rightarrow> bool" where
  "open_failure e =
     (case e of Missing \<Rightarrow> True | NotRegular \<Rightarrow> True | Regular r f m b \<Rightarrow> \<not> r \<or> f)"

definition io_failure :: "fs_entry \<Rightarrow> bool" where
  "io_failure e =
     (case e of Missing \<Rightarrow> True | NotRegular \<Rightarrow> True | Regular r f m b \<Rightarrow> \<not> r \<or> f \<or> m)"

text \<open>The trimmed query is found in the cache of a static server.\<close>

definition cache_hit :: "server \<Rightarrow> pystr \<Rightarrow> bool" where
  "cache_hit s query \<longleftrightarrow>
     sublist (strip query) (file_content s) \<or> strip query \<in> file_lines s"

text \<open>The text of the corpus file, when it can be read and is valid UTF-8.\<close>

definition corpus_text :: "fs_entry \<Rightarrow> pystr option" where
  "corpus_text e =
     (case e of
        Regular r f m b \<Rightarrow> if r \<and> \<not> f then utf8_decode Strict b else None
      | _ \<Rightarrow> None)"

text \<open>
  The query as the specification words it: invalid sequences replaced, every NUL
  removed, whitespace trimmed; and the round of the handler on that query.
\<close>

definition spec_derive_query :: "pybytes \<Rightarrow> pystr" where
  "spec_derive_query chunk = strip (filter (\<lambda>c. c \<noteq> 0) (decode_with Replace chunk))"

definition spec_handle_data :: "server \<Rightarrow> filesystem \<Rightarrow> pybytes \<Rightarrow> round" where
  "spec_handle_data s fs chunk =
     (let query = spec_derive_query chunk in
      if query = [] then \<lparr>to_send = Some (bs ''STRING NOT FOUND'' @ [10]), searched = None\<rparr>
      else
        (let result = search_string s fs query in
         \<lparr>to_send = (case utf8_encode (result @ [10]) of Inl e \<Rightarrow> None | Inr b \<Rightarrow> Some b),
          searched = Some query\<rparr>))"

text \<open>
  The key and the value of a line of the configuration file that has the form
  \<open>key=value\<close> and is no comment.
\<close>

definition line_key_value :: "pylib \<Rightarrow> pystr \<Rightarrow> (pystr \<times> pystr) option" where
  "line_key_value lib raw =
     (let line = strip raw in
      if line = [] \<or> prefix (py ''#'') line \<or> 61 \<notin> set line then None
      else Some (str_lower lib (strip (fst (split_eq line))), strip (snd (split_eq line))))"

text \<open>A port value that is not an integer, or an integer outside 1-65535.\<close>

definition bad_port :: "pylib \<Rightarrow> pystr \<Rightarrow> bool" where
  "bad_port lib v = (case int_of_str lib v of None \<Rightarrow> True | Some p \<Rightarrow> p < 1 \<or> 65535 < p)"

definition bad_port_line :: "pylib \<Rightarrow> pystr \<Rightarrow> bool" where
  "bad_port_line lib raw =
     (case line_key_value lib raw of
        None \<Rightarrow> False
      | Some (k, v) \<Rightarrow> k = py ''port'' \<and> bad_port lib v)"

text \<open>A line that sets the corpus path, and the value it sets.\<close>

definition corpus_path_value :: "pylib \<Rightarrow> pystr \<Rightarrow> pystr option" where
  "corpus_path_value lib raw =
     (case line_key_value lib raw of
        None \<Rightarrow> None
      | Some (k, v) \<Rightarrow> if k = py ''linuxpath'' \<or> k = py ''file_path'' then Some v else None)"

section \<open>Example inputs\<close>

text \<open>
  A file system whose only file is the corpus \<open>corpus.txt\<close> with the given bytes, a
  configuration file that names it, and an \<open>ssl\<close> module in which nothing fails.
\<close>

definition corpus_fs :: "pybytes \<Rightarrow> filesystem" where
  "corpus_fs b = (\<lambda>p. if p = py ''corpus.txt'' then Regular True False False b else Missing)"

text \<open>The same file system when mapping the corpus file into memory fails.\<close>

definition unmappable_fs :: "pybytes \<Rightarrow> filesystem" where
  "unmappable_fs b = (\<lambda>p. if p = py ''corpus.txt'' then Regular True False True b else Missing)"

definition static_conf :: config_source where
  "static_conf = Opened [py ''port=44445'' @ [10], py ''linuxpath=corpus.txt'' @ [10]] None"

definition dynamic_conf :: config_source where
  "dynamic_conf =
     Opened [py ''linuxpath=corpus.txt'' @ [10], py ''REREAD_ON_QUERY=True'' @ [10]] None"

definition good_ssl :: tls_lib where
  "good_ssl = \<lparr>context_error = None, cert_chain_error = (\<lambda>c k. None),
     verify_locations_error = (\<lambda>c. None), ciphers_error = False\<rparr>"

definition static_server :: "pybytes \<Rightarrow> server" where
  "static_server b =
     load_file_once (new_server (default_config\<lparr>linuxpath := py ''corpus.txt''\<rparr>)) (corpus_fs b)"

definition dynamic_server :: server where
  "dynamic_server =
     new_server (default_config\<lparr>linuxpath := py ''corpus.txt'', reread_on_query := True\<rparr>)"

section \<open>Properties\<close>

subsection \<open>Stripping\<close>

lemma dropWhile_id: "xs = [] \<or> \<not> p (hd xs) \<Longrightarrow> dropWhile p xs = xs"
  by (cases xs) auto

lemma hd_dropWhile_not: "dropWhile p xs \<noteq> [] \<Longrightarrow> \<not> p (hd (dropWhile p xs))"
  by (simp add: hd_dropWhile)

lemma last_dropWhile: "dropWhile p xs \<noteq> [] \<Longrightarrow> last (dropWhile p xs) = last xs"
  by (metis last_appendR takeWhile_dropWhile_id)

lemma strip_ends:
  "strip s = [] \<or> (\<not> is_space (hd (strip s)) \<and> \<not> is_space (last (strip s)))"
proof (cases "strip s = []")
  case True then show ?thesis by simp
next
  case False
  let ?u = "dropWhile is_space (rev s)"
  have t: "strip s = dropWhile is_space (rev ?u)"
    by (simp add: strip_def lstrip_with_def rstrip_with_def)
  have u: "?u \<noteq> []"
  proof
    assume "?u = []"
    then have "dropWhile is_space (rev ?u) = []" by (simp only: rev.simps dropWhile.simps)
    with False t show False by simp
  qed
  have "\<not> is_space (hd ?u)" using u by (rule hd_dropWhile_not)
  then have "\<not> is_space (last (rev ?u))" using u by (simp add: last_rev)
  moreover have "last (strip s) = last (rev ?u)"
    using False unfolding t by (rule last_dropWhile)
  moreover have "\<not> is_space (hd (strip s))"
    using False unfolding t by (rule hd_dropWhile_not)
  ultimately show ?thesis by simp
qed

lemma strip_fixed:
  assumes "t = [] \<or> (\<not> is_space (hd t) \<and> \<not> is_space (last t))"
  shows "strip t = t"
proof (cases "t = []")
  case True then show ?thesis by (simp add: strip_def lstrip_with_def rstrip_with_def)
next
  case False
  with assms have h: "\<not> is_space (hd t)" and l: "\<not> is_space (last t)" by auto
  from False l have "dropWhile is_space (rev t) = rev t"
    by (intro dropWhile_id) (simp add: hd_rev)
  then show ?thesis using h False
    by (simp add: strip_def lstrip_with_def rstrip_with_def dropWhile_id)
qed

lemma strip_idem: "strip (strip s) = strip s"
  by (rule strip_fixed) (rule strip_ends)

lemma rstrip_with_sublist: "prefix (rstrip_with p s) s"
  using suffix_dropWhile[of p "rev s"] unfolding rstrip_with_def
  by (metis rev_rev_ident suffix_to_prefix)

lemma sublist_strip: "sublist (strip s) s"
proof -
  have "suffix (strip s) (rstrip_with is_space s)"
    unfolding strip_def lstrip_with_def by (rule suffix_dropWhile)
  then have "sublist (strip s) (rstrip_with is_space s)" by (rule suffix_imp_sublist)
  moreover have "sublist (rstrip_with is_space s) s"
    using rstrip_with_sublist by (rule prefix_imp_sublist)
  ultimately show ?thesis by (rule sublist_order.order_trans)
qed

lemma rstrip_with_Nil_iff: "rstrip_with p s = [] \<longleftrightarrow> (\<forall>c\<in>set s. p c)"
  by (auto simp: rstrip_with_def dropWhile_eq_Nil_conv)

lemma strip_Nil_iff: "strip s = [] \<longleftrightarrow> (\<forall>c\<in>set s. is_space c)"
proof
  assume "strip s = []"
  then have "\<forall>c\<in>set (rstrip_with is_space s). is_space c"
    by (simp add: strip_def lstrip_with_def dropWhile_eq_Nil_conv)
  then have "dropWhile is_space (rstrip_with is_space s) = []"
    by (simp add: dropWhile_eq_Nil_conv)
  show "\<forall>c\<in>set s. is_space c"
  proof (rule ccontr)
    assume "\<not> (\<forall>c\<in>set s. is_space c)"
    then have ne: "rstrip_with is_space s \<noteq> []" by (simp add: rstrip_with_Nil_iff)
    have "rstrip_with is_space s = rev (dropWhile is_space (rev s))" by (simp add: rstrip_with_def)
    with ne have "dropWhile is_space (rev s) \<noteq> []" by auto
    then have "\<not> is_space (hd (dropWhile is_space (rev s)))" by (rule hd_dropWhile_not)
    then have "\<not> is_space (last (rstrip_with is_space s))"
      using \<open>dropWhile is_space (rev s) \<noteq> []\<close> by (simp add: rstrip_with_def last_rev)
    moreover have "last (rstrip_with is_space s) \<in> set (rstrip_with is_space s)"
      using ne by simp
    ultimately show False using \<open>\<forall>c\<in>set (rstrip_with is_space s). is_space c\<close> by blast
  qed
next
  assume "\<forall>c\<in>set s. is_space c"
  then have "rstrip_with is_space s = []" by (simp add: rstrip_with_Nil_iff)
  then show "strip s = []" by (simp add: strip_def lstrip_with_def)
qed

subsection \<open>Searching\<close>

text \<open>
  C9. \<open>search_string\<close> is invariant under surrounding whitespace: for every query whose
  trimmed form is non-empty, in either mode and whatever the cache and the file hold,
  the query and its trimmed form get the same answer.
\<close>

theorem search_string_strip_invariant:
  "strip q \<noteq> [] \<Longrightarrow> search_string s fs q = search_string s fs (strip q)"
proof -
  assume ne: "strip q \<noteq> []"
  then have "q \<noteq> []" by (auto simp: strip_Nil_iff)
  with ne show ?thesis by (simp add: search_string_def strip_idem)
qed

lemma example_strip: "strip (py ''  apple '' @ [10]) = py ''apple''"
  by (simp add: strip_def lstrip_with_def rstrip_with_def is_space_def py_def)

theorem search_string_strip_invariant_witness:
  "strip (py ''  apple '' @ [10]) \<noteq> [] \<and>
   search_string dynamic_server (corpus_fs (bs ''apple'' @ [10])) (py ''  apple '' @ [10]) =
   search_string dynamic_server (corpus_fs (bs ''apple'' @ [10])) (strip (py ''  apple '' @ [10]))"
proof -
  have ne: "strip (py ''  apple '' @ [10]) \<noteq> []"
    unfolding example_strip by (simp add: py_def)
  from search_string_strip_invariant [OF ne] ne show ?thesis by blast
qed

subsection \<open>Evaluation of the examples\<close>

lemmas text_eval = py_def bs_def strip_def lstrip_with_def rstrip_with_def is_space_def
  rstrip_nl_def rstrip_nul_def sublist_Cons_right

lemmas config_eval = load_config_def process_line_def split_eq_def parse_bool_def
  ascii_lib_def ascii_lower_def ascii_int_def unsigned_ascii_int_def is_digit_def
  default_config_def config_reraise_def is_ValueError_def Let_def

lemma load_static_conf:
  "load_config ascii_lib static_conf = Inr (default_config\<lparr>linuxpath := py ''corpus.txt''\<rparr>)"
  by (simp add: static_conf_def config_eval text_eval)

lemma load_dynamic_conf:
  "load_config ascii_lib dynamic_conf =
     Inr (default_config\<lparr>linuxpath := py ''corpus.txt'', reread_on_query := True\<rparr>)"
  by (simp add: dynamic_conf_def config_eval text_eval)

lemma load_file_once_keeps [simp]:
  "file_path (load_file_once s fs) = file_path s"
  "reread_on_query (load_file_once s fs) = reread_on_query s"
  "ssl_enabled (load_file_once s fs) = ssl_enabled s"
  "certfile (load_file_once s fs) = certfile s"
  "keyfile (load_file_once s fs) = keyfile s"
  "cafile (load_file_once s fs) = cafile s"
  "psk (load_file_once s fs) = psk s"
  by (simp_all add: load_file_once_def Let_def split: fs_entry.splits)

lemma load_file_once_ssl [simp]:
  "ssl_ctx (load_file_once s fs) = ssl_ctx s"
  "running (load_file_once s fs) = running s"
  by (simp_all add: load_file_once_def Let_def split: fs_entry.splits)

lemma server_init_static_conf:
  "server_init ascii_lib good_ssl (corpus_fs b) static_conf = Inr (static_server b)"
proof -
  let ?c = "default_config\<lparr>linuxpath := py ''corpus.txt''\<rparr>"
  have "ssl_ctx (static_server b) = None" "\<not> ssl_enabled (static_server b)"
    by (simp_all add: static_server_def new_server_def default_config_def)
  then have "setup_ssl (corpus_fs b) good_ssl (static_server b) = Inr (static_server b)"
    by (simp add: setup_ssl_def)
  moreover have "\<not> reread_on_query (new_server ?c)"
    by (simp add: new_server_def default_config_def)
  ultimately show ?thesis
    by (simp add: server_init_def load_static_conf static_server_def)
qed

lemma server_init_dynamic_conf:
  "server_init ascii_lib good_ssl fs dynamic_conf = Inr dynamic_server"
  by (simp add: server_init_def load_dynamic_conf dynamic_server_def setup_ssl_def
      new_server_def default_config_def)

subsection \<open>The cache\<close>

lemma rstrip_nl_nonempty: "strip l \<noteq> [] \<Longrightarrow> rstrip_nl l \<noteq> []"
proof
  assume a: "strip l \<noteq> []" and "rstrip_nl l = []"
  then have "\<forall>c\<in>set l. c = 10" by (simp add: rstrip_nl_def rstrip_with_Nil_iff)
  then have "\<forall>c\<in>set l. is_space c" by (auto simp: is_space_def)
  with a show False by (simp add: strip_Nil_iff)
qed

lemma read_file_nonempty_lines: "x \<in> set (read_file s fs) \<Longrightarrow> x \<noteq> []"
  by (auto simp: read_file_def rstrip_nl_nonempty split: sum.splits)

lemma join_Nil_iff: "sep \<noteq> [] \<Longrightarrow> join sep xs = [] \<longleftrightarrow> (xs = [] \<or> xs = [[]])"
  by (induction sep xs rule: join.induct) auto

lemma sublist_join: "x \<in> set xs \<Longrightarrow> sublist x (join sep xs)"
proof (induction sep xs rule: join.induct)
  case (1 sep) then show ?case by simp
next
  case (2 sep y) then show ?case by simp
next
  case (3 sep a b ys)
  show ?case
  proof (cases "x = a")
    case True then show ?thesis by simp
  next
    case False
    with 3 have "sublist x (join sep (b # ys))" by simp
    then have "sublist x ((a @ sep) @ join sep (b # ys))"
      by (meson sublist_append_leftI sublist_order.order_trans)
    then show ?thesis by simp
  qed
qed

lemma cache_inv_load_file_once: "cache_inv (load_file_once s fs)"
proof (cases "fs (file_path s)")
  case (Regular r f m b)
  show ?thesis
  proof (cases "read_file s fs = []")
    case True with Regular show ?thesis by (simp add: load_file_once_def cache_inv_def)
  next
    case False
    then obtain x xs where xs: "read_file s fs = x # xs" by (cases "read_file s fs") auto
    then have "x \<noteq> []" using read_file_nonempty_lines[of x s fs] by simp
    then have "join [10] (x # xs) \<noteq> []" by (simp add: join_Nil_iff)
    with Regular xs show ?thesis by (simp add: load_file_once_def cache_inv_def)
  qed
qed (simp_all add: load_file_once_def cache_inv_def)

lemma setup_ssl_keeps:
  "setup_ssl fs ssl s = Inr s' \<Longrightarrow>
     file_path s' = file_path s \<and> file_lines s' = file_lines s \<and>
     file_content s' = file_content s \<and> reread_on_query s' = reread_on_query s"
  by (auto simp: setup_ssl_def split: if_splits sum.splits)

lemma server_init_cache:
  assumes "server_init lib ssl fs src = Inr s"
  shows "\<exists>c. load_config lib src = Inr c \<and> file_path s = linuxpath c \<and>
             reread_on_query s = reread_on_query c \<and>
             (if reread_on_query c then file_lines s = {} \<and> file_content s = []
              else file_lines s = file_lines (load_file_once (new_server c) fs) \<and>
                   file_content s = file_content (load_file_once (new_server c) fs))"
proof -
  from assms obtain c where c: "load_config lib src = Inr c"
    by (auto simp: server_init_def split: sum.splits)
  let ?s1 = "if \<not> reread_on_query (new_server c) then load_file_once (new_server c) fs else new_server c"
  from assms c have "setup_ssl fs ssl ?s1 = Inr s"
    by (auto simp: server_init_def Let_def split: sum.splits)
  from setup_ssl_keeps[OF this] c show ?thesis
    by (auto simp: new_server_def)
qed

lemma perform_keeps:
  "file_lines (fst (perform fs s op)) = file_lines s \<and>
   file_content (fst (perform fs s op)) = file_content s \<and>
   reread_on_query (fst (perform fs s op)) = reread_on_query s"
  by (cases op) simp_all

lemma run_keeps:
  "file_lines (fst (run s ops)) = file_lines s \<and>
   file_content (fst (run s ops)) = file_content s \<and>
   reread_on_query (fst (run s ops)) = reread_on_query s"
proof (induction ops arbitrary: s)
  case Nil then show ?case by simp
next
  case (Cons a ops)
  obtain fs op where a: "a = (fs, op)" by (cases a)
  obtain s' out where p: "perform fs s op = (s', out)" by (cases "perform fs s op")
  obtain s'' outs where r: "run s' ops = (s'', outs)" by (cases "run s' ops")
  from Cons[of s'] r have "file_lines s'' = file_lines s' \<and> file_content s'' = file_content s'
     \<and> reread_on_query s'' = reread_on_query s'" by simp
  moreover from perform_keeps[of fs s op] p have "file_lines s' = file_lines s \<and>
     file_content s' = file_content s \<and> reread_on_query s' = reread_on_query s" by simp
  ultimately show ?case using a p r by simp
qed

text \<open>
  C8. After a successful initialization the line set and the joined text are both empty
  or both populated, and every later call (a search, a chunk handled on a connection, a
  shutdown) leaves it so; in dynamic mode both are empty and stay empty.
\<close>

theorem cache_invariant:
  assumes "server_init lib ssl fs src = Inr s"
  shows "cache_inv s \<and> cache_inv (fst (run s ops)) \<and>
         (reread_on_query s \<longrightarrow>
            file_lines (fst (run s ops)) = {} \<and> file_content (fst (run s ops)) = [])"
proof -
  from server_init_cache[OF assms] obtain c where
    c: "reread_on_query s = reread_on_query c"
       "if reread_on_query c then file_lines s = {} \<and> file_content s = []
        else file_lines s = file_lines (load_file_once (new_server c) fs) \<and>
             file_content s = file_content (load_file_once (new_server c) fs)"
    by blast
  have inv: "cache_inv s"
  proof (cases "reread_on_query c")
    case True with c show ?thesis by (simp add: cache_inv_def)
  next
    case False
    with c cache_inv_load_file_once[of "new_server c" fs] show ?thesis
      by (simp add: cache_inv_def)
  qed
  moreover have "cache_inv (fst (run s ops))"
    using inv run_keeps[of s ops] by (simp add: cache_inv_def)
  moreover have "reread_on_query s \<longrightarrow>
      file_lines (fst (run s ops)) = {} \<and> file_content (fst (run s ops)) = []"
    using c run_keeps[of s ops] by auto
  ultimately show ?thesis by blast
qed

theorem cache_invariant_witness:
  "server_init ascii_lib good_ssl (corpus_fs (bs ''apple'' @ [10])) dynamic_conf = Inr dynamic_server \<and>
   cache_inv dynamic_server \<and>
   cache_inv (fst (run dynamic_server
     [(corpus_fs (bs ''apple'' @ [10]), Search (py ''apple'')),
      (corpus_fs (bs ''pear'' @ [10]), Chunk (bs ''pear'' @ [10])),
      (corpus_fs [], Shutdown)])) \<and>
   file_lines (fst (run dynamic_server
     [(corpus_fs (bs ''apple'' @ [10]), Search (py ''apple'')),
      (corpus_fs (bs ''pear'' @ [10]), Chunk (bs ''pear'' @ [10])),
      (corpus_fs [], Shutdown)])) = {} \<and>
   file_content (fst (run dynamic_server
     [(corpus_fs (bs ''apple'' @ [10]), Search (py ''apple'')),
      (corpus_fs (bs ''pear'' @ [10]), Chunk (bs ''pear'' @ [10])),
      (corpus_fs [], Shutdown)])) = []"
proof -
  have i: "server_init ascii_lib good_ssl (corpus_fs (bs ''apple'' @ [10])) dynamic_conf = Inr dynamic_server"
    by (rule server_init_dynamic_conf)
  have d: "reread_on_query dynamic_server"
    by (simp add: dynamic_server_def new_server_def)
  from cache_invariant [OF i] d i show ?thesis by blast
qed

subsection \<open>Static and dynamic search\<close>

lemma strip_Nil [simp]: "strip [] = []"
  by (simp add: strip_def lstrip_with_def rstrip_with_def)

lemma rstrip_with_decomp: "\<exists>r. s = rstrip_with p s @ r \<and> (\<forall>c\<in>set r. p c)"
proof -
  have "rev s = takeWhile p (rev s) @ dropWhile p (rev s)" by simp
  then have "s = rev (dropWhile p (rev s)) @ rev (takeWhile p (rev s))"
    by (metis rev_append rev_rev_ident)
  moreover have "\<forall>c\<in>set (rev (takeWhile p (rev s))). p c"
    by (auto dest: set_takeWhileD)
  ultimately show ?thesis unfolding rstrip_with_def by blast
qed

lemma strip_rstrip_nl_Nil_iff: "strip (rstrip_nl l) = [] \<longleftrightarrow> strip l = []"
proof -
  obtain r where r: "l = rstrip_nl l @ r" "\<forall>c\<in>set r. c = 10"
    using rstrip_with_decomp[of l "\<lambda>c. c = 10"] unfolding rstrip_nl_def by blast
  have "\<forall>c\<in>set r. is_space c" using r(2) by (auto simp: is_space_def)
  moreover have "set l = set (rstrip_nl l) \<union> set r" using r(1) by (metis set_append)
  ultimately show ?thesis by (auto simp: strip_Nil_iff)
qed

lemma filter_corpus_lines:
  "filter (\<lambda>l. strip l \<noteq> []) (map rstrip_nl ls) = map rstrip_nl (filter (\<lambda>l. strip l \<noteq> []) ls)"
  by (induction ls) (auto simp: strip_rstrip_nl_Nil_iff)

lemma read_file_corpus_lines:
  "read_file s fs = filter (\<lambda>l. strip l \<noteq> []) (corpus_lines (fs (file_path s)))"
  by (simp add: read_file_def corpus_lines_def filter_corpus_lines split: sum.splits)

lemma corpus_lines_not_regular:
  "e = Missing \<or> e = NotRegular \<Longrightarrow> corpus_lines e = []"
  by (auto simp: corpus_lines_def read_text_lines_def)

lemma load_file_once_cache:
  "file_content (load_file_once s fs) = cached_text (fs (file_path s))"
  "file_lines (load_file_once s fs) =
     set (filter (\<lambda>l. strip l \<noteq> []) (corpus_lines (fs (file_path s))))"
proof -
  let ?F = "filter (\<lambda>l. strip l \<noteq> []) (corpus_lines (fs (file_path s)))"
  have r: "read_file s fs = ?F" by (rule read_file_corpus_lines)
  have "file_content (load_file_once s fs) = join [10] ?F \<and> file_lines (load_file_once s fs) = set ?F"
  proof (cases "fs (file_path s)")
    case Missing
    then show ?thesis by (simp add: load_file_once_def corpus_lines_not_regular)
  next
    case NotRegular
    then show ?thesis by (simp add: load_file_once_def corpus_lines_not_regular)
  next
    case (Regular x y m z)
    then have "load_file_once s fs =
        (if read_file s fs \<noteq> [] then s\<lparr>file_lines := set (read_file s fs), file_content := join [10] (read_file s fs)\<rparr>
         else s\<lparr>file_lines := {}, file_content := []\<rparr>)"
      by (simp add: load_file_once_def Let_def)
    then show ?thesis unfolding r by (cases "?F = []") simp_all
  qed
  then show "file_content (load_file_once s fs) = cached_text (fs (file_path s))"
    and "file_lines (load_file_once s fs) = set ?F"
    by (simp_all add: cached_text_def)
qed

lemma static_init_cache:
  assumes "server_init lib ssl fs src = Inr s" and "\<not> reread_on_query s"
  shows "file_content s = cached_text (fs (file_path s))"
    and "file_lines s = set (filter (\<lambda>l. strip l \<noteq> []) (corpus_lines (fs (file_path s))))"
proof -
  from server_init_cache[OF assms(1)] assms(2) obtain c where
    c: "file_path s = linuxpath c"
       "file_lines s = file_lines (load_file_once (new_server c) fs)"
       "file_content s = file_content (load_file_once (new_server c) fs)"
    by (auto split: if_splits)
  have "file_path (new_server c) = linuxpath c" by (simp add: new_server_def)
  with c show "file_content s = cached_text (fs (file_path s))"
    and "file_lines s = set (filter (\<lambda>l. strip l \<noteq> []) (corpus_lines (fs (file_path s))))"
    by (simp_all add: load_file_once_cache)
qed

lemma mmap_search_not_found:
  "\<not> occurs_in_bytes q (file_bytes (fs (file_path s))) \<Longrightarrow> mmap_search s fs q = STRING_NOT_FOUND"
  by (auto simp: mmap_search_def mmap_scan_def occurs_in_bytes_def file_bytes_def
      split: fs_entry.splits sum.splits)

lemma mmap_search_tokens:
  "mmap_search s fs q = STRING_EXISTS \<or> mmap_search s fs q = STRING_NOT_FOUND"
  by (auto simp: mmap_search_def mmap_scan_def split: fs_entry.splits sum.splits)

lemma search_string_tokens:
  "search_string s fs q = STRING_EXISTS \<or> search_string s fs q = STRING_NOT_FOUND"
  using mmap_search_tokens[of s fs "strip q"] by (auto simp: search_string_def Let_def)

lemma mmap_search_cache_free:
  "mmap_search (s\<lparr>file_lines := L, file_content := C\<rparr>) fs q = mmap_search s fs q"
  by (simp add: mmap_search_def mmap_scan_def)

text \<open>
  C2 (as amended). An empty or whitespace-only query gets \<open>STRING NOT FOUND\<close> without any
  check. For every query whose trimmed form is non-empty, \<open>search_string\<close> answers as the
  specified sequence of checks does: in static mode containment of the trimmed query in
  the joined text, then membership in the line set, then the memory-mapped scan; in
  dynamic mode the scan alone, whatever the cache fields hold.
\<close>

theorem search_order:
  "(strip q = [] \<longrightarrow> search_string s fs q = STRING_NOT_FOUND) \<and>
   (strip q \<noteq> [] \<longrightarrow>
      search_string s fs q = spec_search s fs q \<and>
      (reread_on_query s \<longrightarrow>
         search_string s fs q = mmap_search s fs (strip q) \<and>
         search_string (s\<lparr>file_lines := L, file_content := C\<rparr>) fs q = search_string s fs q))"
proof (intro conjI impI)
  show "strip q = [] \<Longrightarrow> search_string s fs q = STRING_NOT_FOUND"
    by (simp add: search_string_def)
next
  assume ne: "strip q \<noteq> []"
  then have q: "q \<noteq> []" by (auto simp: strip_Nil_iff)
  from ne have "file_content s = [] \<Longrightarrow> \<not> sublist (strip q) (file_content s)" by simp
  with ne q show "search_string s fs q = spec_search s fs q"
    by (cases "file_content s = []") (auto simp: search_string_def spec_search_def Let_def)
next
  assume ne: "strip q \<noteq> []" and d: "reread_on_query s"
  then have q: "q \<noteq> []" by (auto simp: strip_Nil_iff)
  with ne d show "search_string s fs q = mmap_search s fs (strip q)"
    by (simp add: search_string_def Let_def)
  from ne d q show "search_string (s\<lparr>file_lines := L, file_content := C\<rparr>) fs q = search_string s fs q"
    by (simp add: search_string_def Let_def mmap_search_cache_free)
qed

subsection \<open>Concrete runs of the search\<close>

lemmas server_eval = static_server_def dynamic_server_def load_file_once_def read_file_def
  read_text_lines_def corpus_fs_def new_server_def default_config_def utf8_step_def is_cont_def
  corpus_lines_def cached_text_def file_bytes_def occurs_in_bytes_def

lemmas search_eval = search_string_def spec_search_def mmap_search_def mmap_scan_def
  utf8_encode_cp_def STRING_EXISTS_def STRING_NOT_FOUND_def Let_def

lemma tokens_differ: "STRING_EXISTS \<noteq> STRING_NOT_FOUND"
  by (simp add: STRING_EXISTS_def STRING_NOT_FOUND_def py_def)

theorem search_order_counterexample:
  "py '' '' \<noteq> [] \<and>
   \<not> reread_on_query (static_server (bs ''apple'' @ [10])) \<and>
   search_string (static_server (bs ''apple'' @ [10])) (corpus_fs (bs ''apple'' @ [10])) (py '' '') =
     STRING_NOT_FOUND \<and>
   spec_search (static_server (bs ''apple'' @ [10])) (corpus_fs (bs ''apple'' @ [10])) (py '' '') =
     STRING_EXISTS \<and>
   STRING_EXISTS \<noteq> STRING_NOT_FOUND"
proof (intro conjI)
  show "py '' '' \<noteq> []" by (simp add: py_def)
  show "\<not> reread_on_query (static_server (bs ''apple'' @ [10]))"
    by (simp add: static_server_def new_server_def default_config_def)
  show "search_string (static_server (bs ''apple'' @ [10])) (corpus_fs (bs ''apple'' @ [10])) (py '' '') =
     STRING_NOT_FOUND"
    by (simp add: search_string_def text_eval)
  show "spec_search (static_server (bs ''apple'' @ [10])) (corpus_fs (bs ''apple'' @ [10])) (py '' '') =
     STRING_EXISTS"
    by (simp add: spec_search_def text_eval static_server_def new_server_def default_config_def)
  show "STRING_EXISTS \<noteq> STRING_NOT_FOUND" by (rule tokens_differ)
qed

theorem search_order_witness:
  "strip (py '' '') = [] \<and>
   search_string dynamic_server (corpus_fs (bs ''apple'' @ [10])) (py '' '') = STRING_NOT_FOUND \<and>
   strip (py ''  apple '' @ [10]) \<noteq> [] \<and>
   search_string (static_server (bs ''apple'' @ [10])) (corpus_fs (bs ''apple'' @ [10]))
       (py ''  apple '' @ [10]) =
     spec_search (static_server (bs ''apple'' @ [10])) (corpus_fs (bs ''apple'' @ [10]))
       (py ''  apple '' @ [10]) \<and>
   reread_on_query dynamic_server \<and>
   search_string dynamic_server (corpus_fs (bs ''apple'' @ [10])) (py ''  apple '' @ [10]) =
     mmap_search dynamic_server (corpus_fs (bs ''apple'' @ [10])) (strip (py ''  apple '' @ [10])) \<and>
   search_string (dynamic_server\<lparr>file_lines := {py ''pear''}, file_content := py ''pear''\<rparr>)
       (corpus_fs (bs ''apple'' @ [10])) (py ''  apple '' @ [10]) =
     search_string dynamic_server (corpus_fs (bs ''apple'' @ [10])) (py ''  apple '' @ [10])"
proof -
  have e: "strip (py '' '') = []" by (simp add: text_eval)
  have ne: "strip (py ''  apple '' @ [10]) \<noteq> []"
    unfolding example_strip by (simp add: py_def)
  have d: "reread_on_query dynamic_server" by (simp add: dynamic_server_def new_server_def)
  from search_order [of "py '' ''" dynamic_server "corpus_fs (bs ''apple'' @ [10])"] e
  have 1: "search_string dynamic_server (corpus_fs (bs ''apple'' @ [10])) (py '' '') = STRING_NOT_FOUND"
    by blast
  from search_order [of "py ''  apple '' @ [10]" "static_server (bs ''apple'' @ [10])"
      "corpus_fs (bs ''apple'' @ [10])"] ne
  have 2: "search_string (static_server (bs ''apple'' @ [10])) (corpus_fs (bs ''apple'' @ [10]))
       (py ''  apple '' @ [10]) =
     spec_search (static_server (bs ''apple'' @ [10])) (corpus_fs (bs ''apple'' @ [10]))
       (py ''  apple '' @ [10])"
    by blast
  from search_order [where q = "py ''  apple '' @ [10]" and s = dynamic_server
      and fs = "corpus_fs (bs ''apple'' @ [10])" and L = "{py ''pear''}" and C = "py ''pear''"] ne d
  have 3: "search_string dynamic_server (corpus_fs (bs ''apple'' @ [10])) (py ''  apple '' @ [10]) =
     mmap_search dynamic_server (corpus_fs (bs ''apple'' @ [10])) (strip (py ''  apple '' @ [10])) \<and>
   search_string (dynamic_server\<lparr>file_lines := {py ''pear''}, file_content := py ''pear''\<rparr>)
       (corpus_fs (bs ''apple'' @ [10])) (py ''  apple '' @ [10]) =
     search_string dynamic_server (corpus_fs (bs ''apple'' @ [10])) (py ''  apple '' @ [10])"
    by blast
  from e 1 ne 2 d 3 show ?thesis by blast
qed

subsection \<open>The UTF-8 codec\<close>

lemma utf8_step_cases:
  assumes "utf8_step x xs = Got c k"
  shows "(k = 1 \<and> x < 0x80 \<and> c = x) \<or>
    (\<exists>y r. k = 2 \<and> xs = y # r \<and> 0xC2 \<le> x \<and> x < 0xE0 \<and> is_cont y \<and>
        c = (x - 0xC0) * 64 + (y - 0x80)) \<or>
    (\<exists>y z r. k = 3 \<and> xs = y # z # r \<and> 0xE0 \<le> x \<and> x < 0xF0 \<and> is_cont y \<and> is_cont z \<and>
        \<not> (x = 0xE0 \<and> y < 0xA0) \<and> \<not> (x = 0xED \<and> 0xA0 \<le> y) \<and>
        c = (x - 0xE0) * 4096 + (y - 0x80) * 64 + (z - 0x80)) \<or>
    (\<exists>y z w r. k = 4 \<and> xs = y # z # w # r \<and> 0xF0 \<le> x \<and> x < 0xF5 \<and> is_cont y \<and> is_cont z \<and>
        is_cont w \<and> \<not> (x = 0xF0 \<and> y < 0x90) \<and> \<not> (x = 0xF4 \<and> 0x90 \<le> y) \<and>
        c = (x - 0xF0) * 262144 + (y - 0x80) * 4096 + (z - 0x80) * 64 + (w - 0x80))"
proof (cases "x < 0x80")
  case True with assms show ?thesis by (simp add: utf8_step_def)
next
  case n1: False
  show ?thesis
  proof (cases "x < 0xE0")
    case True
    with n1 assms show ?thesis
      by (simp add: utf8_step_def split: if_splits list.splits)
  next
    case n2: False
    show ?thesis
    proof (cases "x < 0xF0")
      case True
      with n1 n2 assms show ?thesis
        by (simp add: utf8_step_def split: if_splits list.splits)
    next
      case n3: False
      with n1 n2 assms show ?thesis
        by (simp add: utf8_step_def split: if_splits list.splits)
    qed
  qed
qed




lemma dm: "r < n \<Longrightarrow> (q * n + r) div n = (q::nat) \<and> (q * n + r) mod n = r"
  by simp

lemma dm3:
  assumes "b < 64" "d < 64"
  shows "(a * 4096 + b * 64 + d) mod 64 = (d::nat)"
    and "(a * 4096 + b * 64 + d) div 64 mod 64 = b"
    and "(a * 4096 + b * 64 + d) div 4096 = a"
proof -
  let ?c = "a * 4096 + b * 64 + d"
  have eq: "?c = (a * 64 + b) * 64 + d" by simp
  have 1: "?c div 64 = a * 64 + b" "?c mod 64 = d"
    using dm[of d 64 "a * 64 + b"] assms(2) by (simp_all only: eq)
  have 2: "(a * 64 + b) div 64 = a" "(a * 64 + b) mod 64 = b"
    using dm[of b 64 a] assms(1) by simp_all
  have 3: "?c div 4096 = ?c div 64 div 64"
    by (simp only: div_mult2_eq[symmetric]) simp
  show "?c mod 64 = d" by (rule 1)
  show "?c div 64 mod 64 = b" by (simp only: 1 2)
  show "?c div 4096 = a" by (simp only: 3 1 2)
qed

lemma dm4:
  assumes "b < 64" "d < 64" "e < 64"
  shows "(a * 262144 + b * 4096 + d * 64 + e) mod 64 = (e::nat)"
    and "(a * 262144 + b * 4096 + d * 64 + e) div 64 mod 64 = d"
    and "(a * 262144 + b * 4096 + d * 64 + e) div 4096 mod 64 = b"
    and "(a * 262144 + b * 4096 + d * 64 + e) div 262144 = a"
proof -
  let ?c = "a * 262144 + b * 4096 + d * 64 + e"
  have eq: "?c = (a * 4096 + b * 64 + d) * 64 + e" by simp
  have 1: "?c div 64 = a * 4096 + b * 64 + d" "?c mod 64 = e"
    using dm[of e 64 "a * 4096 + b * 64 + d"] assms(3) by (simp_all only: eq)
  have 3: "?c div 4096 = ?c div 64 div 64"
    by (simp only: div_mult2_eq[symmetric]) simp
  have 4: "?c div 262144 = ?c div 64 div 4096"
    by (simp only: div_mult2_eq[symmetric]) simp
  have 5: "(a * 4096 + b * 64 + d) div 64 = a * 64 + b"
    using dm[of d 64 "a * 64 + b"] assms(2) by simp
  have 2: "(a * 64 + b) div 64 = a" "(a * 64 + b) mod 64 = b"
    using dm[of b 64 a] assms(1) by simp_all
  show "?c mod 64 = e" by (rule 1)
  show "?c div 64 mod 64 = d" by (simp only: 1 dm3(1)[OF assms(1,2)])
  show "?c div 4096 mod 64 = b" by (simp only: 3 1 5 2)
  show "?c div 262144 = a" by (simp only: 4 1 dm3(3)[OF assms(1,2)])
qed


lemma encode_two:
  assumes "0xC2 \<le> x" "x < 0xE0" "is_cont y"
  shows "utf8_encode_cp ((x - 0xC0) * 64 + (y - 0x80)) = Some [x, y]"
proof -
  define a where "a = x - 0xC0"
  define b where "b = y - 0x80"
  from assms have x: "x = 0xC0 + a" and y: "y = 0x80 + b" and a: "2 \<le> a" "a < 32" and b: "b < 64"
    by (auto simp: a_def b_def is_cont_def)
  let ?c = "a * 64 + b"
  have r: "\<not> ?c < 0x80" "?c < 0x800" using a b by auto
  have d: "?c div 64 = a" "?c mod 64 = b" using dm[of b 64 a] b by simp_all
  have "utf8_encode_cp ?c = Some [0xC0 + a, 0x80 + b]"
    unfolding utf8_encode_cp_def by (simp only: r d if_True if_False)
  then show ?thesis by (simp only: x y add_diff_cancel_left')
qed

lemma encode_three:
  assumes "0xE0 \<le> x" "x < 0xF0" "is_cont y" "is_cont z"
    "\<not> (x = 0xE0 \<and> y < 0xA0)" "\<not> (x = 0xED \<and> 0xA0 \<le> y)"
  shows "utf8_encode_cp ((x - 0xE0) * 4096 + (y - 0x80) * 64 + (z - 0x80)) = Some [x, y, z]"
proof -
  define a where "a = x - 0xE0"
  define b where "b = y - 0x80"
  define d where "d = z - 0x80"
  from assms have x: "x = 0xE0 + a" and y: "y = 0x80 + b" and z: "z = 0x80 + d"
    and a: "a < 16" and b: "b < 64" and d: "d < 64"
    and o: "a = 0 \<longrightarrow> 32 \<le> b" and g: "a = 13 \<longrightarrow> b < 32"
    by (auto simp: a_def b_def d_def is_cont_def)
  let ?c = "a * 4096 + b * 64 + d"
  have lo: "\<not> ?c < 0x80" "\<not> ?c < 0x800" using o a b by (cases "a = 0"; simp)+
  have hi: "?c < 0x10000" using a b d by simp
  have ns: "\<not> (0xD800 \<le> ?c \<and> ?c \<le> 0xDFFF)"
  proof (cases "a = 13")
    case True with g b d show ?thesis by simp
  next
    case False with a b d show ?thesis by (cases "a < 13") simp_all
  qed
  have "utf8_encode_cp ?c = Some [0xE0 + a, 0x80 + b, 0x80 + d]"
    unfolding utf8_encode_cp_def
    by (simp only: lo hi ns dm3[OF b d] if_True if_False)
  then show ?thesis by (simp only: x y z add_diff_cancel_left')
qed

lemma encode_four:
  assumes "0xF0 \<le> x" "x < 0xF5" "is_cont y" "is_cont z" "is_cont w"
    "\<not> (x = 0xF0 \<and> y < 0x90)" "\<not> (x = 0xF4 \<and> 0x90 \<le> y)"
  shows "utf8_encode_cp ((x - 0xF0) * 262144 + (y - 0x80) * 4096 + (z - 0x80) * 64 + (w - 0x80))
           = Some [x, y, z, w]"
proof -
  define a where "a = x - 0xF0"
  define b where "b = y - 0x80"
  define d where "d = z - 0x80"
  define e where "e = w - 0x80"
  from assms have x: "x = 0xF0 + a" and y: "y = 0x80 + b" and z: "z = 0x80 + d" and w: "w = 0x80 + e"
    and a: "a < 5" and b: "b < 64" and d: "d < 64" and e: "e < 64"
    and o: "a = 0 \<longrightarrow> 16 \<le> b" and g: "a = 4 \<longrightarrow> b < 16"
    by (auto simp: a_def b_def d_def e_def is_cont_def)
  let ?c = "a * 262144 + b * 4096 + d * 64 + e"
  have lo: "\<not> ?c < 0x80" "\<not> ?c < 0x800" "\<not> ?c < 0x10000"
    using o a b by (cases "a = 0"; simp)+
  have ns: "\<not> (0xD800 \<le> ?c \<and> ?c \<le> 0xDFFF)"
    using o a b by (cases "a = 0"; simp)
  have hi: "?c < 0x110000"
  proof (cases "a = 4")
    case True with g d e show ?thesis by simp
  next
    case False with a b d e show ?thesis by simp
  qed
  have "utf8_encode_cp ?c = Some [0xF0 + a, 0x80 + b, 0x80 + d, 0x80 + e]"
    unfolding utf8_encode_cp_def
    by (simp only: lo hi ns dm4[OF b d e] if_True if_False)
  then show ?thesis by (simp only: x y z w add_diff_cancel_left')
qed

lemma step_encode:
  assumes "utf8_step x xs = Got c k"
  shows "utf8_encode_cp c = Some (take k (x # xs)) \<and> k \<le> Suc (length xs)"
  using utf8_step_cases[OF assms]
proof (elim disjE exE conjE)
  assume "k = 1" "x < 0x80" "c = x"
  then show ?thesis by (simp add: utf8_encode_cp_def)
next
  fix y r
  assume h: "k = 2" "xs = y # r" "0xC2 \<le> x" "x < 0xE0" "is_cont y"
    "c = (x - 0xC0) * 64 + (y - 0x80)"
  from encode_two[OF h(3,4,5)] h(1,2,6) show ?thesis by (simp add: numeral_2_eq_2)
next
  fix y z r
  assume h: "k = 3" "xs = y # z # r" "0xE0 \<le> x" "x < 0xF0" "is_cont y" "is_cont z"
    "\<not> (x = 0xE0 \<and> y < 0xA0)" "\<not> (x = 0xED \<and> 0xA0 \<le> y)"
    "c = (x - 0xE0) * 4096 + (y - 0x80) * 64 + (z - 0x80)"
  from encode_three[OF h(3-8)] h(1,2,9) show ?thesis by (simp add: numeral_3_eq_3)
next
  fix y z w r
  assume h: "k = 4" "xs = y # z # w # r" "0xF0 \<le> x" "x < 0xF5" "is_cont y" "is_cont z" "is_cont w"
    "\<not> (x = 0xF0 \<and> y < 0x90)" "\<not> (x = 0xF4 \<and> 0x90 \<le> y)"
    "c = (x - 0xF0) * 262144 + (y - 0x80) * 4096 + (z - 0x80) * 64 + (w - 0x80)"
  have t: "take 4 (x # y # z # w # r) = [x, y, z, w]" by (simp add: numeral_eq_Suc)
  from encode_four[OF h(3-9)] h(1,2,10) t show ?thesis by simp
qed

lemma decode_encode: "utf8_decode Strict b = Some t \<Longrightarrow> utf8_encode t = Inr b"
proof (induction b arbitrary: t rule: length_induct)
  case (1 b)
  show ?case
  proof (cases b)
    case Nil
    with 1(2) show ?thesis by simp
  next
    case (Cons x r)
    show ?thesis
    proof (cases "utf8_step x r")
      case (Bad k)
      with 1(2) Cons show ?thesis by simp
    next
      case (Got c k)
      with 1(2) Cons obtain t' where t: "t = c # t'"
        and d: "utf8_decode Strict (drop k (x # r)) = Some t'"
        by auto
      from Got have kpos: "0 < k" by (rule utf8_step_Got_pos)
      then have "length (drop k (x # r)) < length b" using Cons by simp
      with 1(1) d have "utf8_encode t' = Inr (drop k (x # r))" by blast
      moreover from step_encode[OF Got] have "utf8_encode_cp c = Some (take k (x # r))" by simp
      ultimately have "utf8_encode (c # t') = Inr (take k (x # r) @ drop k (x # r))" by simp
      then show ?thesis using t Cons by simp
    qed
  qed
qed

lemma encode_append:
  "utf8_encode (a @ b) =
     (case utf8_encode a of
        Inl e \<Rightarrow> Inl e
      | Inr x \<Rightarrow> (case utf8_encode b of Inl e \<Rightarrow> Inl e | Inr y \<Rightarrow> Inr (x @ y)))"
  by (induction a) (auto split: option.splits sum.splits)

lemma encode_sublist:
  assumes "utf8_encode t = Inr b" and "sublist s t"
  shows "\<exists>es. utf8_encode s = Inr es \<and> sublist es b"
proof -
  from assms(2) obtain p q where t: "t = p @ s @ q" by (auto simp: sublist_def)
  from assms(1) obtain ep es eq where "utf8_encode p = Inr ep" "utf8_encode s = Inr es"
    "utf8_encode q = Inr eq" "b = ep @ es @ eq"
    unfolding t by (auto simp: encode_append split: sum.splits)
  then show ?thesis by auto
qed

lemma encode_cp_shape:
  assumes "utf8_encode_cp c = Some e"
  shows "(c < 0x80 \<and> e = [c]) \<or>
         (\<not> c < 0x80 \<and> c < 0x800 \<and> e = [0xC0 + c div 64, 0x80 + c mod 64]) \<or>
         (\<not> c < 0x800 \<and> c < 0x10000 \<and>
            e = [0xE0 + c div 4096, 0x80 + (c div 64) mod 64, 0x80 + c mod 64]) \<or>
         (\<not> c < 0x10000 \<and> c < 0x110000 \<and>
            e = [0xF0 + c div 262144, 0x80 + (c div 4096) mod 64,
                 0x80 + (c div 64) mod 64, 0x80 + c mod 64])"
proof (cases "c < 0x80")
  case True
  with assms show ?thesis unfolding utf8_encode_cp_def by (simp only: if_True option.inject) simp
next
  case n1: False
  show ?thesis
  proof (cases "c < 0x800")
    case True
    with n1 assms show ?thesis unfolding utf8_encode_cp_def
      by (simp only: if_True if_False option.inject) simp
  next
    case n2: False
    show ?thesis
    proof (cases "0xD800 \<le> c \<and> c \<le> 0xDFFF")
      case True
      with n1 n2 assms show ?thesis unfolding utf8_encode_cp_def
        by (simp only: if_True if_False) simp
    next
      case n3: False
      show ?thesis
      proof (cases "c < 0x10000")
        case True
        with n1 n2 n3 assms have "e = [0xE0 + c div 4096, 0x80 + (c div 64) mod 64, 0x80 + c mod 64]"
          unfolding utf8_encode_cp_def by (simp only: if_True if_False option.inject)
        with n2 True show ?thesis by blast
      next
        case n4: False
        show ?thesis
        proof (cases "c < 0x110000")
          case True
          with n1 n2 n3 n4 assms have "e = [0xF0 + c div 262144, 0x80 + (c div 4096) mod 64,
                 0x80 + (c div 64) mod 64, 0x80 + c mod 64]"
            unfolding utf8_encode_cp_def by (simp only: if_True if_False option.inject)
          with n4 True show ?thesis by blast
        next
          case False
          with n1 n2 n3 n4 assms show ?thesis unfolding utf8_encode_cp_def
            by (simp only: if_True if_False) simp
        qed
      qed
    qed
  qed
qed

lemma recon2: "(c::nat) = (c div 64) * 64 + c mod 64"
  by simp

lemma recon3_aux: "q = a * 64 + b \<Longrightarrow> c = q * 64 + r \<Longrightarrow> c = a * 4096 + b * 64 + (r::nat)"
  by simp

lemma recon3: "(c::nat) = (c div 4096) * 4096 + ((c div 64) mod 64) * 64 + c mod 64"
proof -
  have 1: "c div 4096 = c div 64 div 64" by (simp only: div_mult2_eq[symmetric]) simp
  have 2: "c div 64 = (c div 64 div 64) * 64 + (c div 64) mod 64" by simp
  have 3: "c = (c div 64) * 64 + c mod 64" by simp
  from recon3_aux[OF 2 3] show ?thesis by (simp only: 1)
qed

lemma recon4_aux:
  "q = a * 4096 + b * 64 + d \<Longrightarrow> c = q * 64 + r \<Longrightarrow> c = a * 262144 + b * 4096 + d * 64 + (r::nat)"
  by simp

lemma recon4:
  "(c::nat) = (c div 262144) * 262144 + ((c div 4096) mod 64) * 4096 + ((c div 64) mod 64) * 64
     + c mod 64"
proof -
  let ?q = "c div 64"
  have 1: "c div 262144 = ?q div 4096" by (simp only: div_mult2_eq[symmetric]) simp
  have 2: "c div 4096 = ?q div 64" by (simp only: div_mult2_eq[symmetric]) simp
  have 3: "c = ?q * 64 + c mod 64" by simp
  have 4: "?q = (?q div 4096) * 4096 + ((?q div 64) mod 64) * 64 + ?q mod 64" by (rule recon3)
  from recon4_aux[OF 4 3] show ?thesis by (simp only: 1 2)
qed

text \<open>The first byte of an encoding fixes its length; the bytes after it are continuation bytes.\<close>

lemma encode_cp_bytes:
  assumes "utf8_encode_cp c = Some e"
  shows "e \<noteq> [] \<and> \<not> is_cont (hd e) \<and> (\<forall>y\<in>set (tl e). is_cont y) \<and>
         length e = (if hd e < 0x80 then 1 else if hd e < 0xE0 then 2 else if hd e < 0xF0 then 3 else 4)"
  using encode_cp_shape[OF assms]
proof (elim disjE conjE)
  assume "c < 0x80" "e = [c]"
  then show ?thesis by (simp add: is_cont_def)
next
  assume h: "\<not> c < 0x80" "c < 0x800" "e = [0xC0 + c div 64, 0x80 + c mod 64]"
  have "c div 64 < 32" using h(2) by (simp add: less_mult_imp_div_less)
  then show ?thesis using h(3) by (simp add: is_cont_def)
next
  assume h: "\<not> c < 0x800" "c < 0x10000"
    "e = [0xE0 + c div 4096, 0x80 + (c div 64) mod 64, 0x80 + c mod 64]"
  have "c div 4096 < 16" using h(2) by (simp add: less_mult_imp_div_less)
  then show ?thesis using h(3) by (simp add: is_cont_def)
next
  assume h: "\<not> c < 0x10000" "c < 0x110000"
    "e = [0xF0 + c div 262144, 0x80 + (c div 4096) mod 64, 0x80 + (c div 64) mod 64, 0x80 + c mod 64]"
  then show ?thesis by (simp add: is_cont_def)
qed

lemma encode_cp_inj:
  assumes c: "utf8_encode_cp c = Some e" and d: "utf8_encode_cp d = Some e"
  shows "c = d"
  using encode_cp_shape[OF c]
proof (elim disjE conjE)
  assume h: "c < 0x80" "e = [c]"
  with encode_cp_shape[OF d] show ?thesis by auto
next
  assume h: "\<not> c < 0x80" "c < 0x800" "e = [0xC0 + c div 64, 0x80 + c mod 64]"
  with encode_cp_shape[OF d] have "c div 64 = d div 64" "c mod 64 = d mod 64" by auto
  then show ?thesis using recon2[of c] recon2[of d] by simp
next
  assume h: "\<not> c < 0x800" "c < 0x10000"
    "e = [0xE0 + c div 4096, 0x80 + (c div 64) mod 64, 0x80 + c mod 64]"
  with encode_cp_shape[OF d] have "c div 4096 = d div 4096" "(c div 64) mod 64 = (d div 64) mod 64"
    "c mod 64 = d mod 64" by auto
  then show ?thesis using recon3[of c] recon3[of d] by simp
next
  assume h: "\<not> c < 0x10000" "c < 0x110000"
    "e = [0xF0 + c div 262144, 0x80 + (c div 4096) mod 64, 0x80 + (c div 64) mod 64, 0x80 + c mod 64]"
  with encode_cp_shape[OF d] have "c div 262144 = d div 262144"
    "(c div 4096) mod 64 = (d div 4096) mod 64" "(c div 64) mod 64 = (d div 64) mod 64"
    "c mod 64 = d mod 64" by auto
  then show ?thesis using recon4[of c] recon4[of d] by simp
qed

lemma encode_cp_prefix_free:
  assumes c: "utf8_encode_cp c = Some e" and d: "utf8_encode_cp d = Some f"
    and p: "prefix (f @ u) (e @ v)"
  shows "c = d \<and> prefix u v"
proof -
  from encode_cp_bytes[OF c] encode_cp_bytes[OF d]
  have ne: "e \<noteq> []" "f \<noteq> []"
    and le: "length e = (if hd e < 0x80 then 1 else if hd e < 0xE0 then 2 else if hd e < 0xF0 then 3 else 4)"
    and lf: "length f = (if hd f < 0x80 then 1 else if hd f < 0xE0 then 2 else if hd f < 0xF0 then 3 else 4)"
    by blast+
  from p obtain w where w: "e @ v = f @ u @ w" by (auto simp: prefix_def)
  from w ne have "hd e = hd f" by (metis hd_append2)
  with le lf have "length e = length f" by simp
  with w have "e = f" "v = u @ w" by auto
  with c d show ?thesis using encode_cp_inj by auto
qed

lemma encode_prefix:
  "utf8_encode s = Inr es \<Longrightarrow> utf8_encode t = Inr et \<Longrightarrow> prefix es et \<Longrightarrow> prefix s t"
proof (induction s arbitrary: t es et)
  case Nil
  then show ?case by simp
next
  case (Cons d s')
  from Cons.prems(1) obtain f es' where f: "utf8_encode_cp d = Some f"
    and es': "utf8_encode s' = Inr es'" and es: "es = f @ es'"
    by (auto split: option.splits sum.splits)
  from encode_cp_bytes[OF f] have "f \<noteq> []" by simp
  with es Cons.prems(3) have "et \<noteq> []" by auto
  with Cons.prems(2) obtain c t' where t: "t = c # t'" by (cases t) auto
  from Cons.prems(2) t obtain e et' where e: "utf8_encode_cp c = Some e"
    and et': "utf8_encode t' = Inr et'" and et: "et = e @ et'"
    by (auto split: option.splits sum.splits)
  have p: "prefix (f @ es') (e @ et')" using Cons.prems(3) by (simp only: es et)
  from encode_cp_prefix_free[OF e f p] have cd: "c = d" and p': "prefix es' et'" by blast+
  from Cons.IH[OF es' et' p'] cd t show ?case by simp
qed

lemma sublist_skip_cont:
  assumes "\<forall>y\<in>set xs. is_cont y" and "es \<noteq> []" and "\<not> is_cont (hd es)"
    and "sublist es (xs @ r)"
  shows "sublist es r"
  using assms
proof (induction xs)
  case Nil
  then show ?case by simp
next
  case (Cons y xs)
  from Cons.prems(4) have "prefix es (y # xs @ r) \<or> sublist es (xs @ r)"
    by (simp add: sublist_Cons_right)
  moreover have "\<not> prefix es (y # xs @ r)"
  proof
    assume "prefix es (y # xs @ r)"
    with Cons.prems(2) have "hd es = y" by (cases es) auto
    with Cons.prems(1,3) show False by simp
  qed
  ultimately show ?case using Cons by simp
qed

lemma encode_sublist_rev:
  "utf8_encode s = Inr es \<Longrightarrow> utf8_encode t = Inr et \<Longrightarrow> s \<noteq> [] \<Longrightarrow> sublist es et
     \<Longrightarrow> sublist s t"
proof (induction t arbitrary: et)
  case Nil
  then have "es = []" by simp
  with Nil.prems(1,3) show ?case
    by (cases s) (auto split: option.splits sum.splits dest: encode_cp_bytes)
next
  case (Cons c t')
  from Cons.prems(2) obtain e et' where e: "utf8_encode_cp c = Some e"
    and et': "utf8_encode t' = Inr et'" and et: "et = e @ et'"
    by (auto split: option.splits sum.splits)
  from Cons.prems(1,3) obtain d s' f es' where s: "s = d # s'" and f: "utf8_encode_cp d = Some f"
    and es: "es = f @ es'"
    by (cases s) (auto split: option.splits sum.splits)
  from encode_cp_bytes[OF f] es have lead: "es \<noteq> []" "\<not> is_cont (hd es)" by auto
  from encode_cp_bytes[OF e] obtain x xs where x: "e = x # xs" and xs: "\<forall>y\<in>set xs. is_cont y"
    by (cases e) auto
  from Cons.prems(4) have "prefix es et \<or> sublist es (xs @ et')"
    unfolding et x by (simp add: sublist_Cons_right)
  then show ?case
  proof
    assume "prefix es et"
    from encode_prefix[OF Cons.prems(1,2) this] show ?thesis by (rule prefix_imp_sublist)
  next
    assume "sublist es (xs @ et')"
    from sublist_skip_cont[OF xs lead this] have "sublist es et'" .
    from Cons.IH[OF Cons.prems(1) et' Cons.prems(3) this] show ?thesis
      by (simp add: sublist_Cons_right)
  qed
qed

subsection \<open>Lines of a text file\<close>

lemma concat_iter_lines: "concat (iter_lines t) = t"
  by (induction t) (auto split: list.splits)

lemma sublist_concat: "l \<in> set ls \<Longrightarrow> sublist l (concat ls)"
proof (induction ls)
  case Nil then show ?case by simp
next
  case (Cons a ls)
  show ?case
  proof (cases "l = a")
    case True then show ?thesis by simp
  next
    case False
    with Cons have "sublist l (concat ls)" by simp
    then show ?thesis by (simp add: sublist_append)
  qed
qed

lemma iter_lines_sublist: "l \<in> set (iter_lines t) \<Longrightarrow> sublist l t"
  using sublist_concat[of l "iter_lines t"] by (simp add: concat_iter_lines)

lemma prefix_universal_newlines:
  "prefix s (universal_newlines t) \<Longrightarrow> 10 \<notin> set s \<Longrightarrow> prefix s t"
proof (induction t arbitrary: s rule: universal_newlines.induct)
  case 1
  then show ?case by simp
next
  case (2 c)
  then show ?case by (cases s) (auto split: if_splits)
next
  case (3 c d cs)
  show ?case
  proof (cases s)
    case Nil then show ?thesis by simp
  next
    case (Cons x s')
    with "3.prems" have nc: "c \<noteq> 13" and xc: "x = c"
      and p: "prefix s' (universal_newlines (d # cs))" and n: "10 \<notin> set s'"
      by (auto split: if_splits)
    from "3.IH"(3)[OF _ _ p n] nc have "prefix s' (d # cs)" by simp
    with xc Cons show ?thesis by simp
  qed
qed

lemma sublist_universal_newlines:
  "sublist s (universal_newlines t) \<Longrightarrow> 10 \<notin> set s \<Longrightarrow> sublist s t"
proof (induction t rule: universal_newlines.induct)
  case 1
  then show ?case by simp
next
  case (2 c)
  from "2.prems" have "prefix s (universal_newlines [c]) \<or> s = []"
    by (auto simp: sublist_Cons_right split: if_splits)
  with "2.prems"(2) have "prefix s [c] \<or> s = []" using prefix_universal_newlines by blast
  then show ?case by auto
next
  case (3 c d cs)
  show ?case
  proof (cases "prefix s (universal_newlines (c # d # cs))")
    case True
    from prefix_universal_newlines[OF this "3.prems"(2)] show ?thesis by (rule prefix_imp_sublist)
  next
    case np: False
    show ?thesis
    proof (cases "c = 13 \<and> d = 10")
      case True
      with "3.prems"(1) np have "sublist s (universal_newlines cs)"
        by (simp add: sublist_Cons_right)
      from "3.IH"(1)[OF True this "3.prems"(2)] show ?thesis
        by (simp add: sublist_Cons_right)
    next
      case False
      with "3.prems"(1) np have "sublist s (universal_newlines (d # cs))"
        by (auto simp: sublist_Cons_right split: if_splits)
      with "3.IH"(2,3) False "3.prems"(2) have "sublist s (d # cs)" by (cases "c = 13") auto
      then show ?thesis by (simp add: sublist_Cons_right)
    qed
  qed
qed

lemma sublist_join_line:
  "sublist s (join [10] ls) \<Longrightarrow> 10 \<notin> set s \<Longrightarrow> s \<noteq> [] \<Longrightarrow> \<exists>l\<in>set ls. sublist s l"
proof (induction "[10::nat]" ls rule: join.induct)
  case 1
  then show ?case by simp
next
  case (2 x)
  then show ?case by simp
next
  case (3 x y ys)
  from "3.prems"(1) have "sublist s (x @ 10 # join [10] (y # ys))" by simp
  then consider "sublist s x" | "sublist s (10 # join [10] (y # ys))"
    | s1 s2 where "s = s1 @ s2" "suffix s1 x" "prefix s2 (10 # join [10] (y # ys))"
    unfolding sublist_append by blast
  then show ?case
  proof cases
    case 1 then show ?thesis by auto
  next
    case 2
    then have "prefix s (10 # join [10] (y # ys)) \<or> sublist s (join [10] (y # ys))"
      by (simp add: sublist_Cons_right)
    moreover have "\<not> prefix s (10 # join [10] (y # ys))"
      using "3.prems"(2,3) by (cases s) auto
    ultimately have "sublist s (join [10] (y # ys))" by simp
    from "3.hyps"[OF this "3.prems"(2,3)] show ?thesis by auto
  next
    case 3
    from 3(1,3) "3.prems"(2) have "s2 = []" by (cases s2) auto
    with 3(1,2) have "sublist s x" by (simp add: suffix_imp_sublist)
    then show ?thesis by auto
  qed
qed

subsection \<open>Static search against the corpus text\<close>

lemma corpus_text_SomeD:
  "corpus_text e = Some t \<Longrightarrow>
     \<exists>m b. e = Regular True False m b \<and> utf8_decode Strict b = Some t"
  by (cases e) (auto simp: corpus_text_def split: if_splits)

lemma corpus_lines_text:
  "corpus_text e = Some t \<Longrightarrow>
     corpus_lines e = map rstrip_nl (iter_lines (universal_newlines t))"
  by (auto dest!: corpus_text_SomeD simp: corpus_lines_def read_text_lines_def)

lemma cached_text_in_corpus:
  assumes t: "corpus_text e = Some t"
    and s: "sublist s (cached_text e)" and n: "10 \<notin> set s" and ne: "s \<noteq> []"
  shows "sublist s t"
proof -
  from sublist_join_line[OF s[unfolded cached_text_def] n ne]
  obtain l where l: "l \<in> set (corpus_lines e)" "sublist s l" by auto
  from l(1) obtain l0 where l0: "l0 \<in> set (iter_lines (universal_newlines t))" "l = rstrip_nl l0"
    unfolding corpus_lines_text[OF t] by auto
  have "prefix l l0" unfolding l0(2) rstrip_nl_def by (rule rstrip_with_sublist)
  then have "sublist l l0" by (rule prefix_imp_sublist)
  moreover have "sublist l0 (universal_newlines t)" using l0(1) by (rule iter_lines_sublist)
  ultimately have "sublist s (universal_newlines t)"
    using l(2) by (meson sublist_order.order_trans)
  then show ?thesis using n by (rule sublist_universal_newlines)
qed

lemma bytes_in_corpus:
  assumes t: "corpus_text e = Some t"
    and o: "occurs_in_bytes s (file_bytes e)" and ne: "s \<noteq> []"
  shows "sublist s t"
proof -
  from corpus_text_SomeD[OF t] obtain m b where
    e: "e = Regular True False m b" and d: "utf8_decode Strict b = Some t" by blast
  from d have et: "utf8_encode t = Inr b" by (rule decode_encode)
  from o e obtain es where es: "utf8_encode s = Inr es" "sublist es b"
    by (auto simp: occurs_in_bytes_def file_bytes_def split: sum.splits)
  from encode_sublist_rev[OF es(1) et ne es(2)] show ?thesis .
qed

text \<open>
  C1 (as amended). On a server initialized in static mode: a query whose trimmed form is
  non-empty and that is, verbatim, a line of the corpus file read at initialization gets
  \<open>STRING EXISTS\<close> (whatever the file holds by then); a query whose trimmed form contains
  no newline and occurs nowhere in the text of the corpus file (readable, valid UTF-8 and
  unchanged since initialization) gets \<open>STRING NOT FOUND\<close>.
\<close>

theorem static_search_correct:
  assumes "server_init lib ssl fs src = Inr s" and "\<not> reread_on_query s"
  shows "(strip q \<noteq> [] \<and> q \<in> set (corpus_lines (fs (file_path s))) \<longrightarrow>
            search_string s fs' q = STRING_EXISTS) \<and>
         (corpus_text (fs (file_path s)) = Some t \<and> 10 \<notin> set (strip q) \<and>
          \<not> sublist (strip q) t \<longrightarrow>
            search_string s fs q = STRING_NOT_FOUND)"
proof (intro conjI impI)
  assume a: "strip q \<noteq> [] \<and> q \<in> set (corpus_lines (fs (file_path s)))"
  then have "q \<in> set (filter (\<lambda>l. strip l \<noteq> []) (corpus_lines (fs (file_path s))))" by simp
  then have "sublist q (cached_text (fs (file_path s)))"
    unfolding cached_text_def by (rule sublist_join)
  with sublist_strip[of q] have "sublist (strip q) (file_content s)"
    using static_init_cache(1)[OF assms] by (metis sublist_order.order_trans)
  moreover from this a have "file_content s \<noteq> []" by auto
  moreover from a have "q \<noteq> []" by (auto simp: strip_Nil_iff)
  ultimately show "search_string s fs' q = STRING_EXISTS"
    using a assms(2) by (simp add: search_string_def Let_def)
next
  assume b: "corpus_text (fs (file_path s)) = Some t \<and> 10 \<notin> set (strip q) \<and>
          \<not> sublist (strip q) t"
  show "search_string s fs q = STRING_NOT_FOUND"
  proof (cases "strip q = []")
    case True
    then show ?thesis by (simp add: search_string_def)
  next
    case ne: False
    from b have t: "corpus_text (fs (file_path s)) = Some t" and n: "10 \<notin> set (strip q)"
      and a: "\<not> sublist (strip q) t" by simp_all
    have c: "\<not> sublist (strip q) (cached_text (fs (file_path s)))"
      using cached_text_in_corpus[OF t _ n ne] a by blast
    then have n1: "\<not> sublist (strip q) (file_content s)"
      using static_init_cache(1)[OF assms] by simp
    have n2: "strip q \<notin> file_lines s"
    proof
      assume "strip q \<in> file_lines s"
      then have "strip q \<in> set (filter (\<lambda>l. strip l \<noteq> []) (corpus_lines (fs (file_path s))))"
        using static_init_cache(2)[OF assms] by simp
      then have "sublist (strip q) (cached_text (fs (file_path s)))"
        unfolding cached_text_def by (rule sublist_join)
      with c show False by simp
    qed
    have "\<not> occurs_in_bytes (strip q) (file_bytes (fs (file_path s)))"
      using bytes_in_corpus[OF t _ ne] a by blast
    then have "mmap_search s fs (strip q) = STRING_NOT_FOUND"
      by (rule mmap_search_not_found)
    with n1 n2 show ?thesis
      using assms(2) by (simp add: search_string_def Let_def)
  qed
qed

theorem static_search_counterexample:
  "server_init ascii_lib good_ssl (corpus_fs (bs ''apple'' @ [10, 32, 10])) static_conf =
     Inr (static_server (bs ''apple'' @ [10, 32, 10])) \<and>
   py '' '' \<noteq> [] \<and>
   py '' '' \<in> set (corpus_lines (corpus_fs (bs ''apple'' @ [10, 32, 10]) (py ''corpus.txt''))) \<and>
   search_string (static_server (bs ''apple'' @ [10, 32, 10]))
     (corpus_fs (bs ''apple'' @ [10, 32, 10])) (py '' '') = STRING_NOT_FOUND \<and>
   corpus_text (corpus_fs (bs ''apple'' @ [10, 32, 10]) (py ''corpus.txt'')) =
     Some (py ''apple'' @ [10, 32, 10]) \<and>
   \<not> sublist (py '' apple'') (py ''apple'' @ [10, 32, 10]) \<and>
   search_string (static_server (bs ''apple'' @ [10, 32, 10]))
     (corpus_fs (bs ''apple'' @ [10, 32, 10])) (py '' apple'') = STRING_EXISTS \<and>
   server_init ascii_lib good_ssl (corpus_fs (bs ''a'' @ [10, 10] @ bs ''b'' @ [10])) static_conf =
     Inr (static_server (bs ''a'' @ [10, 10] @ bs ''b'' @ [10])) \<and>
   corpus_text (corpus_fs (bs ''a'' @ [10, 10] @ bs ''b'' @ [10]) (py ''corpus.txt'')) =
     Some (py ''a'' @ [10, 10] @ py ''b'' @ [10]) \<and>
   \<not> sublist (py ''a'' @ [10] @ py ''b'') (py ''a'' @ [10, 10] @ py ''b'' @ [10]) \<and>
   search_string (static_server (bs ''a'' @ [10, 10] @ bs ''b'' @ [10]))
     (corpus_fs (bs ''a'' @ [10, 10] @ bs ''b'' @ [10])) (py ''a'' @ [10] @ py ''b'') =
     STRING_EXISTS \<and>
   search_string dynamic_server
     (corpus_fs (bs ''a'' @ [10, 10] @ bs ''b'' @ [10])) (py ''a'' @ [10] @ py ''b'') =
     STRING_NOT_FOUND \<and>
   STRING_EXISTS \<noteq> STRING_NOT_FOUND"
proof (intro conjI)
  show "server_init ascii_lib good_ssl (corpus_fs (bs ''apple'' @ [10, 32, 10])) static_conf =
     Inr (static_server (bs ''apple'' @ [10, 32, 10]))" by (rule server_init_static_conf)
  show "py '' '' \<noteq> []" by (simp add: py_def)
  show "py '' '' \<in> set (corpus_lines (corpus_fs (bs ''apple'' @ [10, 32, 10]) (py ''corpus.txt'')))"
    by (simp add: server_eval text_eval)
  show "search_string (static_server (bs ''apple'' @ [10, 32, 10]))
     (corpus_fs (bs ''apple'' @ [10, 32, 10])) (py '' '') = STRING_NOT_FOUND"
    by (simp add: search_string_def text_eval)
  show "corpus_text (corpus_fs (bs ''apple'' @ [10, 32, 10]) (py ''corpus.txt'')) =
     Some (py ''apple'' @ [10, 32, 10])"
    by (simp add: corpus_text_def corpus_fs_def bs_def py_def utf8_step_def)
  show "\<not> sublist (py '' apple'') (py ''apple'' @ [10, 32, 10])"
    by (simp add: py_def sublist_Cons_right)
  show "search_string (static_server (bs ''apple'' @ [10, 32, 10]))
     (corpus_fs (bs ''apple'' @ [10, 32, 10])) (py '' apple'') = STRING_EXISTS"
    by (simp add: server_eval search_eval text_eval)
  show "server_init ascii_lib good_ssl (corpus_fs (bs ''a'' @ [10, 10] @ bs ''b'' @ [10])) static_conf =
     Inr (static_server (bs ''a'' @ [10, 10] @ bs ''b'' @ [10]))" by (rule server_init_static_conf)
  show "corpus_text (corpus_fs (bs ''a'' @ [10, 10] @ bs ''b'' @ [10]) (py ''corpus.txt'')) =
     Some (py ''a'' @ [10, 10] @ py ''b'' @ [10])"
    by (simp add: corpus_text_def corpus_fs_def bs_def py_def utf8_step_def)
  show "\<not> sublist (py ''a'' @ [10] @ py ''b'') (py ''a'' @ [10, 10] @ py ''b'' @ [10])"
    by (simp add: py_def sublist_Cons_right)
  show "search_string (static_server (bs ''a'' @ [10, 10] @ bs ''b'' @ [10]))
     (corpus_fs (bs ''a'' @ [10, 10] @ bs ''b'' @ [10])) (py ''a'' @ [10] @ py ''b'') =
     STRING_EXISTS"
    by (simp add: server_eval search_eval text_eval)
  show "search_string dynamic_server
     (corpus_fs (bs ''a'' @ [10, 10] @ bs ''b'' @ [10])) (py ''a'' @ [10] @ py ''b'') =
     STRING_NOT_FOUND"
    by (simp add: server_eval search_eval text_eval)
  show "STRING_EXISTS \<noteq> STRING_NOT_FOUND" by (rule tokens_differ)
qed

theorem static_search_correct_witness:
  "server_init ascii_lib good_ssl (corpus_fs (bs ''apple'' @ [10])) static_conf =
     Inr (static_server (bs ''apple'' @ [10])) \<and>
   \<not> reread_on_query (static_server (bs ''apple'' @ [10])) \<and>
   strip (py ''apple'') \<noteq> [] \<and>
   py ''apple'' \<in> set (corpus_lines
     (corpus_fs (bs ''apple'' @ [10]) (file_path (static_server (bs ''apple'' @ [10]))))) \<and>
   search_string (static_server (bs ''apple'' @ [10])) (corpus_fs []) (py ''apple'') =
     STRING_EXISTS \<and>
   corpus_text (corpus_fs (bs ''apple'' @ [10]) (file_path (static_server (bs ''apple'' @ [10])))) =
     Some (py ''apple'' @ [10]) \<and>
   10 \<notin> set (strip (py ''pear'')) \<and>
   \<not> sublist (strip (py ''pear'')) (py ''apple'' @ [10]) \<and>
   search_string (static_server (bs ''apple'' @ [10])) (corpus_fs (bs ''apple'' @ [10])) (py ''pear'') =
     STRING_NOT_FOUND"
proof -
  let ?fs = "corpus_fs (bs ''apple'' @ [10])"
  let ?s = "static_server (bs ''apple'' @ [10])"
  have i: "server_init ascii_lib good_ssl ?fs static_conf = Inr ?s"
    by (rule server_init_static_conf)
  have m: "\<not> reread_on_query ?s" by (simp add: static_server_def new_server_def default_config_def)
  have p: "file_path ?s = py ''corpus.txt''"
    by (simp add: static_server_def new_server_def)
  have a: "strip (py ''apple'') \<noteq> [] \<and> py ''apple'' \<in> set (corpus_lines (?fs (file_path ?s)))"
    unfolding p by (simp add: server_eval text_eval)
  have b: "corpus_text (?fs (file_path ?s)) = Some (py ''apple'' @ [10]) \<and>
           10 \<notin> set (strip (py ''pear'')) \<and>
           \<not> sublist (strip (py ''pear'')) (py ''apple'' @ [10])"
    unfolding p by (simp add: corpus_text_def server_eval text_eval)
  from static_search_correct [OF i m, of "py ''apple''" "corpus_fs []"] a
  have "search_string ?s (corpus_fs []) (py ''apple'') = STRING_EXISTS" by blast
  moreover from static_search_correct [OF i m, of "py ''pear''" "corpus_fs []" "py ''apple'' @ [10]"] b
  have "search_string ?s ?fs (py ''pear'') = STRING_NOT_FOUND" by blast
  ultimately show ?thesis using i m a b by blast
qed

subsection \<open>Failures of the corpus file\<close>

lemma server_init_static_fs:
  "server_init ascii_lib good_ssl fs static_conf =
     Inr (load_file_once (new_server (default_config\<lparr>linuxpath := py ''corpus.txt''\<rparr>)) fs)"
proof -
  let ?c = "default_config\<lparr>linuxpath := py ''corpus.txt''\<rparr>"
  let ?s = "load_file_once (new_server ?c) fs"
  have "ssl_ctx ?s = None" "\<not> ssl_enabled ?s"
    by (simp_all add: new_server_def default_config_def)
  then have "setup_ssl fs good_ssl ?s = Inr ?s"
    by (simp add: setup_ssl_def)
  moreover have "\<not> reread_on_query (new_server ?c)"
    by (simp add: new_server_def default_config_def)
  ultimately show ?thesis
    by (simp add: server_init_def load_static_conf)
qed

lemma io_failure_scan:
  "io_failure (fs (file_path s)) \<Longrightarrow> mmap_search s fs q = STRING_NOT_FOUND"
  by (auto simp: io_failure_def mmap_search_def mmap_scan_def split: fs_entry.splits)

lemma open_failure_io: "open_failure e \<Longrightarrow> io_failure e"
  by (auto simp: open_failure_def io_failure_def split: fs_entry.splits)

lemma open_failure_cache:
  assumes "open_failure (fs (file_path s))"
  shows "file_content (load_file_once s fs) = []" "file_lines (load_file_once s fs) = {}"
proof -
  from assms have "corpus_lines (fs (file_path s)) = []"
    by (auto simp: open_failure_def corpus_lines_def read_text_lines_def split: fs_entry.splits)
  then show "file_content (load_file_once s fs) = []" "file_lines (load_file_once s fs) = {}"
    by (simp_all add: load_file_once_cache cached_text_def)
qed

text \<open>
  C3 (as amended). \<open>search_string\<close> always returns one of the two tokens, and every
  exception inside the memory-mapped scan becomes \<open>STRING NOT FOUND\<close>. When the corpus
  file is missing, not a regular file, unreadable or hit by an OS error on opening or
  mapping it, the scan and every dynamic-mode search return \<open>STRING NOT FOUND\<close>, and a
  static-mode search returns \<open>STRING NOT FOUND\<close> unless the trimmed query is found in the
  cache, in which case it returns \<open>STRING EXISTS\<close>; a cache loaded from a file that cannot
  be opened is empty, so a search on it returns \<open>STRING NOT FOUND\<close>. A file that is not
  valid UTF-8 leaves the static cache empty, and the answer is then that of the byte scan.
\<close>

theorem search_never_raises:
  "(search_string s fs q = STRING_EXISTS \<or> search_string s fs q = STRING_NOT_FOUND) \<and>
   (\<forall>e. mmap_scan s fs q = Inl e \<longrightarrow> mmap_search s fs q = STRING_NOT_FOUND) \<and>
   (io_failure (fs (file_path s)) \<longrightarrow>
      mmap_search s fs q = STRING_NOT_FOUND \<and>
      (reread_on_query s \<longrightarrow> search_string s fs q = STRING_NOT_FOUND) \<and>
      (\<not> reread_on_query s \<longrightarrow>
         search_string s fs q =
           (if strip q \<noteq> [] \<and> cache_hit s q then STRING_EXISTS else STRING_NOT_FOUND))) \<and>
   (open_failure (fs (file_path s)) \<longrightarrow>
      search_string (load_file_once s fs) fs q = STRING_NOT_FOUND) \<and>
   (\<forall>m b. fs (file_path s) = Regular True False m b \<and> utf8_decode Strict b = None \<longrightarrow>
      file_content (load_file_once s fs) = [] \<and> file_lines (load_file_once s fs) = {} \<and>
      search_string (load_file_once s fs) fs q =
        (if strip q = [] then STRING_NOT_FOUND else mmap_search s fs (strip q)))"
proof (intro conjI allI impI)
  show "search_string s fs q = STRING_EXISTS \<or> search_string s fs q = STRING_NOT_FOUND"
    by (rule search_string_tokens)
next
  fix e assume "mmap_scan s fs q = Inl e"
  then show "mmap_search s fs q = STRING_NOT_FOUND" by (simp add: mmap_search_def)
next
  assume f: "io_failure (fs (file_path s))"
  then show "mmap_search s fs q = STRING_NOT_FOUND" by (rule io_failure_scan)
next
  assume f: "io_failure (fs (file_path s))" and d: "reread_on_query s"
  from f have "mmap_search s fs (strip q) = STRING_NOT_FOUND" by (rule io_failure_scan)
  with d show "search_string s fs q = STRING_NOT_FOUND"
    by (simp add: search_string_def Let_def)
next
  assume f: "io_failure (fs (file_path s))" and d: "\<not> reread_on_query s"
  from f have m: "mmap_search s fs (strip q) = STRING_NOT_FOUND" by (rule io_failure_scan)
  show "search_string s fs q =
           (if strip q \<noteq> [] \<and> cache_hit s q then STRING_EXISTS else STRING_NOT_FOUND)"
  proof (cases "strip q = []")
    case True
    then show ?thesis by (simp add: search_string_def)
  next
    case ne: False
    then have q: "q \<noteq> []" by auto
    from ne have c: "sublist (strip q) (file_content s) \<Longrightarrow> file_content s \<noteq> []" by auto
    show ?thesis
    proof (cases "sublist (strip q) (file_content s)")
      case True
      with c ne q d show ?thesis by (simp add: search_string_def Let_def cache_hit_def)
    next
      case ns: False
      show ?thesis
      proof (cases "strip q \<in> file_lines s")
        case True
        then have "file_lines s \<noteq> {}" by auto
        with True ns ne q d show ?thesis by (simp add: search_string_def Let_def cache_hit_def)
      next
        case False
        with ns ne q d m show ?thesis by (simp add: search_string_def Let_def cache_hit_def)
      qed
    qed
  qed
next
  assume f: "open_failure (fs (file_path s))"
  have "io_failure (fs (file_path (load_file_once s fs)))"
    using open_failure_io[OF f] by simp
  then have "mmap_search (load_file_once s fs) fs (strip q) = STRING_NOT_FOUND"
    by (rule io_failure_scan)
  with open_failure_cache[of fs s, OF f] show "search_string (load_file_once s fs) fs q = STRING_NOT_FOUND"
    by (simp add: search_string_def Let_def)
next
  fix m b assume u: "fs (file_path s) = Regular True False m b \<and> utf8_decode Strict b = None"
  then have "corpus_lines (fs (file_path s)) = []"
    by (simp add: corpus_lines_def read_text_lines_def)
  then have c: "file_content (load_file_once s fs) = []" "file_lines (load_file_once s fs) = {}"
    by (simp_all add: load_file_once_cache cached_text_def)
  from c show "file_content (load_file_once s fs) = []" by simp
  from c show "file_lines (load_file_once s fs) = {}" by simp
  have "mmap_search (load_file_once s fs) fs (strip q) = mmap_search s fs (strip q)"
    by (simp add: mmap_search_def mmap_scan_def)
  with c show "search_string (load_file_once s fs) fs q =
        (if strip q = [] then STRING_NOT_FOUND else mmap_search s fs (strip q))"
    by (simp add: search_string_def Let_def)
qed

theorem search_never_raises_counterexample:
  "utf8_decode Strict (bs ''apple'' @ [10, 255]) = None \<and>
   server_init ascii_lib good_ssl (corpus_fs (bs ''apple'' @ [10, 255])) static_conf =
     Inr (static_server (bs ''apple'' @ [10, 255])) \<and>
   file_content (static_server (bs ''apple'' @ [10, 255])) = [] \<and>
   search_string (static_server (bs ''apple'' @ [10, 255]))
     (corpus_fs (bs ''apple'' @ [10, 255])) (py ''apple'') = STRING_EXISTS \<and>
   search_string dynamic_server (corpus_fs (bs ''apple'' @ [10, 255])) (py ''apple'') =
     STRING_EXISTS \<and>
   server_init ascii_lib good_ssl (corpus_fs (bs ''apple'' @ [10])) static_conf =
     Inr (static_server (bs ''apple'' @ [10])) \<and>
   search_string (static_server (bs ''apple'' @ [10])) (\<lambda>p. Missing) (py ''apple'') =
     STRING_EXISTS \<and>
   server_init ascii_lib good_ssl (unmappable_fs (bs ''apple'' @ [10])) static_conf =
     Inr (static_server (bs ''apple'' @ [10])) \<and>
   mmap_scan (static_server (bs ''apple'' @ [10])) (unmappable_fs (bs ''apple'' @ [10]))
     (py ''apple'') = Inl OSError \<and>
   search_string (static_server (bs ''apple'' @ [10])) (unmappable_fs (bs ''apple'' @ [10]))
     (py ''apple'') = STRING_EXISTS \<and>
   STRING_EXISTS \<noteq> STRING_NOT_FOUND"
proof (intro conjI)
  show "utf8_decode Strict (bs ''apple'' @ [10, 255]) = None"
    by (simp add: bs_def utf8_step_def)
  show "server_init ascii_lib good_ssl (corpus_fs (bs ''apple'' @ [10, 255])) static_conf =
     Inr (static_server (bs ''apple'' @ [10, 255]))" by (rule server_init_static_conf)
  show "file_content (static_server (bs ''apple'' @ [10, 255])) = []"
    by (simp add: server_eval text_eval)
  show "search_string (static_server (bs ''apple'' @ [10, 255]))
     (corpus_fs (bs ''apple'' @ [10, 255])) (py ''apple'') = STRING_EXISTS"
    by (simp add: server_eval search_eval text_eval)
  show "search_string dynamic_server (corpus_fs (bs ''apple'' @ [10, 255])) (py ''apple'') =
     STRING_EXISTS"
    by (simp add: server_eval search_eval text_eval)
  show "server_init ascii_lib good_ssl (corpus_fs (bs ''apple'' @ [10])) static_conf =
     Inr (static_server (bs ''apple'' @ [10]))" by (rule server_init_static_conf)
  show "search_string (static_server (bs ''apple'' @ [10])) (\<lambda>p. Missing) (py ''apple'') =
     STRING_EXISTS"
    by (simp add: server_eval search_eval text_eval)
  have "load_file_once (new_server (default_config\<lparr>linuxpath := py ''corpus.txt''\<rparr>))
          (unmappable_fs (bs ''apple'' @ [10])) = static_server (bs ''apple'' @ [10])"
    by (simp add: server_eval unmappable_fs_def new_server_def)
  then show "server_init ascii_lib good_ssl (unmappable_fs (bs ''apple'' @ [10])) static_conf =
     Inr (static_server (bs ''apple'' @ [10]))"
    by (simp add: server_init_static_fs)
  show "mmap_scan (static_server (bs ''apple'' @ [10])) (unmappable_fs (bs ''apple'' @ [10]))
     (py ''apple'') = Inl OSError"
    by (simp add: mmap_scan_def unmappable_fs_def static_server_def new_server_def bs_def)
  show "search_string (static_server (bs ''apple'' @ [10])) (unmappable_fs (bs ''apple'' @ [10]))
     (py ''apple'') = STRING_EXISTS"
    by (simp add: server_eval search_eval text_eval)
  show "STRING_EXISTS \<noteq> STRING_NOT_FOUND" by (rule tokens_differ)
qed

theorem search_never_raises_witness:
  "mmap_scan dynamic_server (\<lambda>p. Regular False False False (bs ''apple'')) (py ''apple'') =
     Inl PermissionError \<and>
   io_failure ((\<lambda>p. Regular False False False (bs ''apple'')) (file_path dynamic_server)) \<and>
   open_failure ((\<lambda>p. Regular False False False (bs ''apple'')) (file_path dynamic_server)) \<and>
   reread_on_query dynamic_server \<and>
   mmap_search dynamic_server (\<lambda>p. Regular False False False (bs ''apple'')) (py ''apple'') =
     STRING_NOT_FOUND \<and>
   search_string dynamic_server (\<lambda>p. Regular False False False (bs ''apple'')) (py ''apple'') =
     STRING_NOT_FOUND \<and>
   search_string (load_file_once dynamic_server (\<lambda>p. Regular False False False (bs ''apple'')))
     (\<lambda>p. Regular False False False (bs ''apple'')) (py ''apple'') = STRING_NOT_FOUND \<and>
   io_failure (unmappable_fs (bs ''apple'' @ [10]) (file_path (static_server (bs ''apple'' @ [10])))) \<and>
   \<not> reread_on_query (static_server (bs ''apple'' @ [10])) \<and>
   strip (py ''apple'') \<noteq> [] \<and> cache_hit (static_server (bs ''apple'' @ [10])) (py ''apple'') \<and>
   search_string (static_server (bs ''apple'' @ [10])) (unmappable_fs (bs ''apple'' @ [10]))
     (py ''apple'') = STRING_EXISTS \<and>
   \<not> cache_hit (static_server (bs ''apple'' @ [10])) (py ''pear'') \<and>
   search_string (static_server (bs ''apple'' @ [10])) (unmappable_fs (bs ''apple'' @ [10]))
     (py ''pear'') = STRING_NOT_FOUND \<and>
   corpus_fs (bs ''apple'' @ [10, 255]) (file_path dynamic_server) =
     Regular True False False (bs ''apple'' @ [10, 255]) \<and>
   utf8_decode Strict (bs ''apple'' @ [10, 255]) = None \<and>
   file_content (load_file_once dynamic_server (corpus_fs (bs ''apple'' @ [10, 255]))) = [] \<and>
   search_string (load_file_once dynamic_server (corpus_fs (bs ''apple'' @ [10, 255])))
     (corpus_fs (bs ''apple'' @ [10, 255])) (py ''apple'') =
     mmap_search dynamic_server (corpus_fs (bs ''apple'' @ [10, 255])) (strip (py ''apple''))"
proof -
  let ?fs = "\<lambda>p::pystr. Regular False False False (bs ''apple'')"
  let ?ufs = "unmappable_fs (bs ''apple'' @ [10])"
  let ?s = "static_server (bs ''apple'' @ [10])"
  let ?bad = "bs ''apple'' @ [10, 255]"
  have sc: "mmap_scan dynamic_server ?fs (py ''apple'') = Inl PermissionError"
    by (simp add: mmap_scan_def)
  have io: "io_failure (?fs (file_path dynamic_server))" by (simp add: io_failure_def)
  have op: "open_failure (?fs (file_path dynamic_server))" by (simp add: open_failure_def)
  have d: "reread_on_query dynamic_server" by (simp add: dynamic_server_def new_server_def)
  from search_never_raises [of dynamic_server ?fs "py ''apple''"] sc io op d
  have 1: "mmap_search dynamic_server ?fs (py ''apple'') = STRING_NOT_FOUND \<and>
           search_string dynamic_server ?fs (py ''apple'') = STRING_NOT_FOUND \<and>
           search_string (load_file_once dynamic_server ?fs) ?fs (py ''apple'') = STRING_NOT_FOUND"
    by blast
  have p: "file_path ?s = py ''corpus.txt''" by (simp add: static_server_def new_server_def)
  have io2: "io_failure (?ufs (file_path ?s))"
    unfolding p by (simp add: io_failure_def unmappable_fs_def)
  have m: "\<not> reread_on_query ?s"
    by (simp add: static_server_def new_server_def default_config_def)
  have ne: "strip (py ''apple'') \<noteq> []" "strip (py ''pear'') \<noteq> []" by (simp_all add: text_eval)
  have h: "cache_hit ?s (py ''apple'')" by (simp add: cache_hit_def server_eval text_eval)
  have nh: "\<not> cache_hit ?s (py ''pear'')" by (simp add: cache_hit_def server_eval text_eval)
  from search_never_raises [of ?s ?ufs "py ''apple''"] io2 m ne h
  have 2: "search_string ?s ?ufs (py ''apple'') = STRING_EXISTS" by simp
  from search_never_raises [of ?s ?ufs "py ''pear''"] io2 m ne nh
  have 3: "search_string ?s ?ufs (py ''pear'') = STRING_NOT_FOUND" by simp
  have pd: "file_path dynamic_server = py ''corpus.txt''"
    by (simp add: dynamic_server_def new_server_def)
  have r: "corpus_fs ?bad (file_path dynamic_server) = Regular True False False ?bad"
    unfolding pd by (simp add: corpus_fs_def)
  have u: "utf8_decode Strict ?bad = None" by (simp add: bs_def utf8_step_def)
  from search_never_raises [of dynamic_server "corpus_fs ?bad" "py ''apple''"] r u
  have "file_content (load_file_once dynamic_server (corpus_fs ?bad)) = [] \<and>
     search_string (load_file_once dynamic_server (corpus_fs ?bad)) (corpus_fs ?bad) (py ''apple'') =
       (if strip (py ''apple'') = [] then STRING_NOT_FOUND
        else mmap_search dynamic_server (corpus_fs ?bad) (strip (py ''apple'')))"
    by blast
  with ne(1) have 4: "file_content (load_file_once dynamic_server (corpus_fs ?bad)) = [] \<and>
     search_string (load_file_once dynamic_server (corpus_fs ?bad)) (corpus_fs ?bad) (py ''apple'') =
       mmap_search dynamic_server (corpus_fs ?bad) (strip (py ''apple''))"
    by simp
  from 1 2 3 4 sc io op d io2 m ne h nh r u show ?thesis by blast
qed

subsection \<open>The configuration loader\<close>

lemma process_line_error: "process_line lib c l = Inl e \<Longrightarrow> e = ValueError"
  by (auto simp: process_line_def Let_def split: if_splits option.splits)

lemma process_line_bad_port: "bad_port_line lib l \<Longrightarrow> process_line lib c l = Inl ValueError"
  by (auto simp: bad_port_line_def line_key_value_def bad_port_def process_line_def Let_def py_def
      split: if_splits option.splits)

lemma process_line_port:
  "process_line lib c l = Inr c' \<Longrightarrow> 1 \<le> port c \<and> port c \<le> 65535 \<Longrightarrow>
     1 \<le> port c' \<and> port c' \<le> 65535"
  by (auto simp: process_line_def Let_def split: if_splits option.splits)

lemma process_line_path:
  "process_line lib c l = Inr c' \<Longrightarrow>
     linuxpath c' = (case corpus_path_value lib l of None \<Rightarrow> linuxpath c | Some v \<Rightarrow> v)"
  by (auto simp: process_line_def corpus_path_value_def line_key_value_def Let_def py_def
      split: if_splits option.splits)

lemma process_lines_error: "process_lines lib c ls = Inl e \<Longrightarrow> e = ValueError"
  by (induction ls arbitrary: c) (auto split: sum.splits dest: process_line_error)

lemma process_lines_bad_port:
  "\<exists>l\<in>set ls. bad_port_line lib l \<Longrightarrow> process_lines lib c ls = Inl ValueError"
proof (induction ls arbitrary: c)
  case Nil
  then show ?case by simp
next
  case (Cons l ls)
  show ?case
  proof (cases "process_line lib c l")
    case (Inl e)
    then show ?thesis by (simp add: process_line_error)
  next
    case (Inr c')
    with Cons.prems have "\<exists>l\<in>set ls. bad_port_line lib l"
      by (auto simp: process_line_bad_port)
    from Cons.IH[OF this] Inr show ?thesis by simp
  qed
qed

lemma process_lines_port:
  "process_lines lib c ls = Inr c' \<Longrightarrow> 1 \<le> port c \<and> port c \<le> 65535 \<Longrightarrow>
     1 \<le> port c' \<and> port c' \<le> 65535"
proof (induction ls arbitrary: c)
  case Nil
  then show ?case by simp
next
  case (Cons l ls)
  from Cons.prems(1) obtain d where d: "process_line lib c l = Inr d" "process_lines lib d ls = Inr c'"
    by (auto split: sum.splits)
  from process_line_port[OF d(1) Cons.prems(2)] Cons.IH[OF d(2)] show ?case by simp
qed

lemma process_lines_no_path:
  "process_lines lib c ls = Inr c' \<Longrightarrow> \<forall>l\<in>set ls. corpus_path_value lib l = None \<Longrightarrow>
     linuxpath c' = linuxpath c"
proof (induction ls arbitrary: c)
  case Nil
  then show ?case by simp
next
  case (Cons l ls)
  from Cons.prems(1) obtain d where d: "process_line lib c l = Inr d" "process_lines lib d ls = Inr c'"
    by (auto split: sum.splits)
  from process_line_path[OF d(1)] Cons.prems(2) have "linuxpath d = linuxpath c" by simp
  with Cons.IH[OF d(2)] Cons.prems(2) show ?case by simp
qed

lemma process_lines_append:
  "process_lines lib c (xs @ ys) =
     (case process_lines lib c xs of Inl e \<Rightarrow> Inl e | Inr d \<Rightarrow> process_lines lib d ys)"
  by (induction xs arbitrary: c) (auto split: sum.splits)

lemma process_lines_last_path:
  assumes "process_lines lib c (pre @ l # post) = Inr c'"
    and "corpus_path_value lib l = Some v"
    and "\<forall>l'\<in>set post. corpus_path_value lib l' = None"
  shows "linuxpath c' = v"
proof -
  from assms(1) obtain d e where d: "process_lines lib c pre = Inr d"
    "process_line lib d l = Inr e" "process_lines lib e post = Inr c'"
    by (auto simp: process_lines_append split: sum.splits)
  from process_line_path[OF d(2)] assms(2) have "linuxpath e = v" by simp
  with process_lines_no_path[OF d(3) assms(3)] show ?thesis by simp
qed

lemma load_config_opened_error:
  "load_config lib (Opened ls None) = Inl e \<Longrightarrow> e = ValueError"
  by (auto simp: load_config_def config_reraise_def is_ValueError_def
      split: sum.splits if_splits dest: process_lines_error)

lemma load_config_bad_path:
  assumes "\<And>c. process_lines lib default_config ls = Inr c \<Longrightarrow>
             linuxpath c = [] \<or> linuxpath c = py ''.''"
  shows "load_config lib (Opened ls None) = Inl ValueError"
proof (cases "load_config lib (Opened ls None)")
  case (Inl e)
  then show ?thesis by (simp add: load_config_opened_error)
next
  case (Inr c)
  then have "process_lines lib default_config ls = Inr c"
    "\<not> (linuxpath c = [] \<or> linuxpath c = py ''.'')"
    by (auto simp: load_config_def split: sum.splits if_splits)
  with assms show ?thesis by blast
qed

text \<open>
  C7. Loading fails with \<open>FileNotFoundError\<close> when the configuration file does not exist,
  and with \<open>ValueError\<close> when some line sets the port to a value that is no integer or is
  outside 1-65535. When no line sets the corpus path, loading fails, with \<open>ValueError\<close>
  once the file has been read to its end. A failure returns no configuration, and a
  configuration that is returned has its port in 1-65535 and a non-empty corpus path.
\<close>

theorem load_config_failures:
  "load_config lib NoFile = Inl FileNotFoundError \<and>
   ((\<exists>l\<in>set ls. bad_port_line lib l) \<longrightarrow> load_config lib (Opened ls err) = Inl ValueError) \<and>
   ((\<forall>l\<in>set ls. corpus_path_value lib l = None) \<longrightarrow>
      (\<exists>e. load_config lib (Opened ls err) = Inl e) \<and>
      load_config lib (Opened ls None) = Inl ValueError) \<and>
   (\<forall>c. load_config lib src = Inr c \<longrightarrow>
      1 \<le> port c \<and> port c \<le> 65535 \<and> linuxpath c \<noteq> [])"
proof (intro conjI impI allI)
  show "load_config lib NoFile = Inl FileNotFoundError" by (simp add: load_config_def)
next
  assume "\<exists>l\<in>set ls. bad_port_line lib l"
  then have "process_lines lib default_config ls = Inl ValueError"
    by (rule process_lines_bad_port)
  then show "load_config lib (Opened ls err) = Inl ValueError"
    by (simp add: load_config_def config_reraise_def is_ValueError_def)
next
  assume n: "\<forall>l\<in>set ls. corpus_path_value lib l = None"
  have p: "linuxpath c = [] \<or> linuxpath c = py ''.''"
    if "process_lines lib default_config ls = Inr c" for c
    using process_lines_no_path[OF that n] by (simp add: default_config_def)
  then show v: "load_config lib (Opened ls None) = Inl ValueError"
    by (rule load_config_bad_path)
  show "\<exists>e. load_config lib (Opened ls err) = Inl e"
  proof (cases err)
    case None
    with v show ?thesis by blast
  next
    case (Some x)
    then show ?thesis by (auto simp: load_config_def split: sum.splits)
  qed
next
  fix c assume l: "load_config lib src = Inr c"
  then obtain ls where s: "src = Opened ls None" "process_lines lib default_config ls = Inr c"
    "\<not> (linuxpath c = [] \<or> linuxpath c = py ''.'')"
    by (auto simp: load_config_def split: config_source.splits sum.splits option.splits if_splits)
  have "1 \<le> port default_config \<and> port default_config \<le> 65535" by (simp add: default_config_def)
  from process_lines_port[OF s(2) this] s(3)
  show "1 \<le> port c" "port c \<le> 65535" "linuxpath c \<noteq> []" by simp_all
qed

lemmas line_eval = bad_port_line_def bad_port_def corpus_path_value_def line_key_value_def

theorem load_config_failures_witness:
  "load_config ascii_lib NoFile = Inl FileNotFoundError \<and>
   bad_port_line ascii_lib (py ''port=70000'' @ [10]) \<and>
   load_config ascii_lib
     (Opened [py ''linuxpath=corpus.txt'' @ [10], py ''port=70000'' @ [10]] None) = Inl ValueError \<and>
   bad_port_line ascii_lib (py ''port=http'' @ [10]) \<and>
   load_config ascii_lib
     (Opened [py ''port=http'' @ [10], py ''linuxpath=corpus.txt'' @ [10]] None) = Inl ValueError \<and>
   corpus_path_value ascii_lib (py ''port=8080'' @ [10]) = None \<and>
   load_config ascii_lib (Opened [py ''port=8080'' @ [10]] None) = Inl ValueError \<and>
   load_config ascii_lib static_conf = Inr (default_config\<lparr>linuxpath := py ''corpus.txt''\<rparr>) \<and>
   1 \<le> port (default_config\<lparr>linuxpath := py ''corpus.txt''\<rparr>) \<and>
   port (default_config\<lparr>linuxpath := py ''corpus.txt''\<rparr>) \<le> 65535 \<and>
   linuxpath (default_config\<lparr>linuxpath := py ''corpus.txt''\<rparr>) \<noteq> []"
proof -
  let ?c = "default_config\<lparr>linuxpath := py ''corpus.txt''\<rparr>"
  have b1: "bad_port_line ascii_lib (py ''port=70000'' @ [10])"
    by (simp add: line_eval config_eval text_eval)
  have b2: "bad_port_line ascii_lib (py ''port=http'' @ [10])"
    by (simp add: line_eval config_eval text_eval)
  have n: "corpus_path_value ascii_lib (py ''port=8080'' @ [10]) = None"
    by (simp add: line_eval config_eval text_eval)
  from load_config_failures
    [of ascii_lib "[py ''linuxpath=corpus.txt'' @ [10], py ''port=70000'' @ [10]]" None] b1
  have 1: "load_config ascii_lib NoFile = Inl FileNotFoundError \<and>
    load_config ascii_lib
     (Opened [py ''linuxpath=corpus.txt'' @ [10], py ''port=70000'' @ [10]] None) = Inl ValueError"
    by simp
  from load_config_failures
    [of ascii_lib "[py ''port=http'' @ [10], py ''linuxpath=corpus.txt'' @ [10]]" None] b2
  have 2: "load_config ascii_lib
     (Opened [py ''port=http'' @ [10], py ''linuxpath=corpus.txt'' @ [10]] None) = Inl ValueError"
    by simp
  from load_config_failures [of ascii_lib "[py ''port=8080'' @ [10]]" None] n
  have 3: "load_config ascii_lib (Opened [py ''port=8080'' @ [10]] None) = Inl ValueError"
    by simp
  from load_config_failures [of ascii_lib "[]" None static_conf] load_static_conf
  have 4: "1 \<le> port ?c \<and> port ?c \<le> 65535 \<and> linuxpath ?c \<noteq> []"
    by blast
  from 1 2 3 4 b1 b2 n load_static_conf show ?thesis by blast
qed

text \<open>
  C10. A configuration file whose last line setting the corpus path (by the key
  \<open>linuxpath\<close> or \<open>file_path\<close>) gives it the value \<open>.\<close> fails validation with \<open>ValueError\<close>,
  and so does a file in which no line sets the corpus path: the value is then the default,
  which is \<open>.\<close> too.
\<close>

theorem dot_path_rejected:
  "(corpus_path_value lib l = Some (py ''.'') \<and> (\<forall>l'\<in>set post. corpus_path_value lib l' = None) \<longrightarrow>
      load_config lib (Opened (pre @ l # post) None) = Inl ValueError) \<and>
   ((\<forall>l\<in>set ls. corpus_path_value lib l = None) \<longrightarrow>
      load_config lib (Opened ls None) = Inl ValueError) \<and>
   linuxpath default_config = py ''.''"
proof (intro conjI impI)
  assume a: "corpus_path_value lib l = Some (py ''.'') \<and>
    (\<forall>l'\<in>set post. corpus_path_value lib l' = None)"
  have "linuxpath c = [] \<or> linuxpath c = py ''.''"
    if "process_lines lib default_config (pre @ l # post) = Inr c" for c
    using process_lines_last_path[OF that] a by blast
  then show "load_config lib (Opened (pre @ l # post) None) = Inl ValueError"
    by (rule load_config_bad_path)
next
  assume n: "\<forall>l\<in>set ls. corpus_path_value lib l = None"
  have "linuxpath c = [] \<or> linuxpath c = py ''.''"
    if "process_lines lib default_config ls = Inr c" for c
    using process_lines_no_path[OF that n] by (simp add: default_config_def)
  then show "load_config lib (Opened ls None) = Inl ValueError"
    by (rule load_config_bad_path)
next
  show "linuxpath default_config = py ''.''" by (simp add: default_config_def)
qed

theorem dot_path_rejected_witness:
  "corpus_path_value ascii_lib (py ''linuxpath=.'' @ [10]) = Some (py ''.'') \<and>
   corpus_path_value ascii_lib (py ''port=8080'' @ [10]) = None \<and>
   load_config ascii_lib
     (Opened [py ''linuxpath=corpus.txt'' @ [10], py ''linuxpath=.'' @ [10], py ''port=8080'' @ [10]]
        None) = Inl ValueError \<and>
   corpus_path_value ascii_lib (py ''file_path = .'' @ [10]) = Some (py ''.'') \<and>
   load_config ascii_lib (Opened [py ''file_path = .'' @ [10]] None) = Inl ValueError \<and>
   corpus_path_value ascii_lib (py ''host=localhost'' @ [10]) = None \<and>
   load_config ascii_lib (Opened [py ''host=localhost'' @ [10]] None) = Inl ValueError"
proof -
  have a: "corpus_path_value ascii_lib (py ''linuxpath=.'' @ [10]) = Some (py ''.'')"
    by (simp add: line_eval config_eval text_eval)
  have b: "corpus_path_value ascii_lib (py ''port=8080'' @ [10]) = None"
    by (simp add: line_eval config_eval text_eval)
  have c: "corpus_path_value ascii_lib (py ''file_path = .'' @ [10]) = Some (py ''.'')"
    by (simp add: line_eval config_eval text_eval)
  have d: "corpus_path_value ascii_lib (py ''host=localhost'' @ [10]) = None"
    by (simp add: line_eval config_eval text_eval)
  from dot_path_rejected [of ascii_lib "py ''linuxpath=.'' @ [10]" "[py ''port=8080'' @ [10]]"
      "[py ''linuxpath=corpus.txt'' @ [10]]" "[]"] a b
  have 1: "load_config ascii_lib
     (Opened [py ''linuxpath=corpus.txt'' @ [10], py ''linuxpath=.'' @ [10], py ''port=8080'' @ [10]]
        None) = Inl ValueError"
    by simp
  from dot_path_rejected [of ascii_lib "py ''file_path = .'' @ [10]" "[]" "[]" "[]"] c
  have 2: "load_config ascii_lib (Opened [py ''file_path = .'' @ [10]] None) = Inl ValueError"
    by simp
  from dot_path_rejected [of ascii_lib "py ''file_path = .'' @ [10]" "[]" "[]"
      "[py ''host=localhost'' @ [10]]"] d
  have 3: "load_config ascii_lib (Opened [py ''host=localhost'' @ [10]] None) = Inl ValueError"
    by simp
  from 1 2 3 a b c d show ?thesis by blast
qed

end
